theory Spec2Isabelle
  imports Main
begin

section \<open>The entities of \<open>firecrest_wflow/_orm.py\<close>\<close>

text \<open>
  The module declares five mapped classes over one declarative base:
  \<open>Client\<close>, \<open>Code\<close>, \<open>CalcJob\<close>, \<open>Processing\<close> and \<open>DataNode\<close>.
  Each class becomes a record with one field per mapped column. A column that the
  database fills in (the primary key) or that carries a \<open>default\<close> is an option:
  \<open>None\<close> is the Python \<open>None\<close> the attribute holds on an instance that has not
  been inserted yet. A column typed \<open>Optional[...]\<close> is an option as well. The
  remaining columns are typed \<open>Mapped[str]\<close> or \<open>Mapped[int]\<close> and are plain values.
  Field names carry a two-letter prefix of the class, since record fields share one
  name space.
\<close>

datatype fsystem = Posix | Windows

datatype step = Created | Uploading | Submitting | Running | Retrieving | Finalised

text \<open>
  JSON columns (\<open>MutableDict\<close>, \<open>MutableList\<close> over \<open>JSON()\<close>). Numbers are kept
  as integers here; no operation of the module looks inside these values.
\<close>

datatype json =
    JNull
  | JBool bool
  | JInt int
  | JString string
  | JArray "json list"
  | JObject "(string \<times> json) list"

record client =
  cl_pk :: "int option"
  cl_label :: "string option"
  cl_client_url :: string
  cl_client_id :: string
  cl_token_uri :: string
  cl_client_secret :: string
  cl_machine_name :: string
  cl_work_dir :: string
  cl_fsystem :: "fsystem option"
  cl_small_file_size_mb :: "int option"

record code =
  co_pk :: "int option"
  co_label :: "string option"
  co_client_pk :: int
  co_script :: string
  co_upload_paths :: "(string \<times> string option) list option"

record calcjob =
  cj_pk :: "int option"
  cj_label :: "string option"
  cj_uuid :: "string option"
  cj_code_pk :: int
  cj_parameters :: "(string \<times> json) list option"
  cj_upload :: "(string \<times> string option) list option"
  cj_download_globs :: "string list option"

record processing =
  pr_pk :: "int option"
  pr_calcjob_pk :: int
  pr_step :: "step option"
  pr_job_id :: "string option"
  pr_exception :: "string option"

record datanode =
  dn_pk :: "int option"
  dn_attributes :: "(string \<times> json) list option"
  dn_creator_pk :: int

subsection \<open>\<open>Base.__eq__\<close> and \<open>Base.__hash__\<close>\<close>

text \<open>
  An entity is an instance of one of the five classes; the argument of \<open>__eq__\<close> is
  typed \<open>Any\<close>, so it may also be some other Python object. None of the five classes
  derives from another one, so \<open>isinstance(other, self.__class__)\<close> holds exactly
  when \<open>other\<close> is an instance of the same mapped class.
\<close>

datatype entity =
    AClient client
  | ACode code
  | ACalcJob calcjob
  | AProcessing processing
  | ADataNode datanode

datatype pyobject = Entity entity | NonEntity

datatype cls = ClientClass | CodeClass | CalcJobClass | ProcessingClass | DataNodeClass

fun class_of :: "entity \<Rightarrow> cls" where
  "class_of (AClient _) = ClientClass"
| "class_of (ACode _) = CodeClass"
| "class_of (ACalcJob _) = CalcJobClass"
| "class_of (AProcessing _) = ProcessingClass"
| "class_of (ADataNode _) = DataNodeClass"

fun pk :: "entity \<Rightarrow> int option" where
  "pk (AClient c) = cl_pk c"
| "pk (ACode c) = co_pk c"
| "pk (ACalcJob c) = cj_pk c"
| "pk (AProcessing p) = pr_pk p"
| "pk (ADataNode d) = dn_pk d"

fun isinstance :: "pyobject \<Rightarrow> cls \<Rightarrow> bool" where
  "isinstance (Entity e) c = (class_of e = c)"
| "isinstance NonEntity c = False"

text \<open>
  \<^verbatim>\<open>
  def __eq__(self, other):
      if not isinstance(other, self.__class__):
          return False
      return self.pk == other.pk
  \<close>
\<close>

fun entity_eq :: "entity \<Rightarrow> pyobject \<Rightarrow> bool" where
  "entity_eq self NonEntity = False"
| "entity_eq self (Entity other) =
     (if \<not> isinstance (Entity other) (class_of self) then False
      else pk self = pk other)"

text \<open>
  \<open>__hash__\<close> returns \<open>hash(self.pk)\<close>. The built-in \<open>hash\<close> on \<open>int\<close> and
  \<open>None\<close> belongs to the interpreter and is a parameter here.
\<close>

definition entity_hash :: "(int option \<Rightarrow> int) \<Rightarrow> entity \<Rightarrow> int" where
  "entity_hash hash self = hash (pk self)"

subsection \<open>Assignments to the columns of \<open>Processing\<close>\<close>

text \<open>
  \<open>step\<close>, \<open>job_id\<close> and \<open>exception\<close> are plain mapped columns: the class defines
  no property, validator or setter for them, so an assignment stores the value given.
\<close>

definition set_step :: "step \<Rightarrow> processing \<Rightarrow> processing" where
  "set_step s p = p\<lparr>pr_step := Some s\<rparr>"

definition set_job_id :: "string option \<Rightarrow> processing \<Rightarrow> processing" where
  "set_job_id j p = p\<lparr>pr_job_id := j\<rparr>"

definition set_exception :: "string option \<Rightarrow> processing \<Rightarrow> processing" where
  "set_exception e p = p\<lparr>pr_exception := e\<rparr>"

text \<open>The order in which the six steps are listed in the \<open>Enum\<close> column.\<close>

fun step_index :: "step \<Rightarrow> nat" where
  "step_index Created = 0"
| "step_index Uploading = 1"
| "step_index Submitting = 2"
| "step_index Running = 3"
| "step_index Retrieving = 4"
| "step_index Finalised = 5"

subsection \<open>The cached gateway handle, \<open>Client.client\<close>\<close>

text \<open>
  \<^verbatim>\<open>
  @property
  def client(self):
      if not hasattr(self, "_client"):
          self._client = firecrest.Firecrest(
              firecrest_url=self.client_url,
              authorization=firecrest.ClientCredentialsAuth(
                  self.client_id, self.client_secret, self.token_uri))
      return self._client
  \<close>
  A \<open>Client\<close> instance is the record of its columns extended by the private
  attribute \<open>_client\<close>: \<open>None\<close> while the attribute is absent. The constructors
  \<open>firecrest.Firecrest\<close> and \<open>firecrest.ClientCredentialsAuth\<close> belong to an
  external package: the construction is a parameter \<open>mk\<close> that reads and changes
  an outside world \<open>'w\<close> and either raises (\<open>Inl\<close>) or returns a handle.
\<close>

record 'h client_instance = client +
  private_client :: "'h option"

record credentials_auth =
  auth_client_id :: string
  auth_client_secret :: string
  auth_token_uri :: string

type_synonym ('w, 'e, 'h) firecrest_ctor =
  "'w \<Rightarrow> string \<Rightarrow> credentials_auth \<Rightarrow> ('e + 'h) \<times> 'w"

definition ClientCredentialsAuth :: "string \<Rightarrow> string \<Rightarrow> string \<Rightarrow> credentials_auth" where
  "ClientCredentialsAuth cid secret uri =
     \<lparr>auth_client_id = cid, auth_client_secret = secret, auth_token_uri = uri\<rparr>"

definition client_property ::
  "('w, 'e, 'h) firecrest_ctor \<Rightarrow> 'h client_instance \<Rightarrow> 'w
     \<Rightarrow> ('e + 'h) \<times> 'h client_instance \<times> 'w" where
  "client_property mk self w =
     (case private_client self of
        Some h \<Rightarrow> (Inr h, self, w)
      | None \<Rightarrow>
          (case mk w (cl_client_url self)
                  (ClientCredentialsAuth (cl_client_id self) (cl_client_secret self)
                     (cl_token_uri self)) of
             (Inl e, w') \<Rightarrow> (Inl e, self, w')
           | (Inr h, w') \<Rightarrow> (Inr h, self\<lparr>private_client := Some h\<rparr>, w')))"

text \<open>
  A caller that reads the property \<open>n\<close> times in a row: the list of what each
  access returned or raised, the instance and the world afterwards.
\<close>

fun client_accesses ::
  "('w, 'e, 'h) firecrest_ctor \<Rightarrow> nat \<Rightarrow> 'h client_instance \<Rightarrow> 'w
     \<Rightarrow> ('e + 'h) list \<times> 'h client_instance \<times> 'w" where
  "client_accesses mk 0 self w = ([], self, w)"
| "client_accesses mk (Suc n) self w =
     (case client_property mk self w of
        (r, self', w') \<Rightarrow>
          (case client_accesses mk n self' w' of
             (rs, self'', w'') \<Rightarrow> (r # rs, self'', w'')))"

section \<open>The store behind the mapped classes\<close>

text \<open>
  The five \<open>__tablename__\<close>s name five tables. A table is the list of its rows in
  insertion order. The columns declare three kinds of constraints, and the store
  enforces each of them on every write:
  \<^item> \<open>primary_key=True\<close> on \<open>pk\<close>: no two rows of a table share a \<open>pk\<close>;
  \<^item> \<open>unique=True\<close> on \<open>Client.label\<close> and
    \<open>UniqueConstraint("client_pk", "label")\<close> on \<open>Code\<close>;
  \<^item> \<open>ForeignKey("client.pk")\<close>, \<open>ForeignKey("code.pk")\<close> and
    \<open>ForeignKey("calcjob.pk")\<close>: the referenced row exists.
  A write that violates a constraint raises \<open>IntegrityError\<close>, the unit of work is
  rolled back, and the tables are what they were.
\<close>

record db =
  client_table :: "client list"
  code_table :: "code list"
  calcjob_table :: "calcjob list"
  calcjob_status_table :: "processing list"
  data_table :: "datanode list"

datatype constraint = PrimaryKey string | Unique string | ForeignKey string

datatype error =
    IntegrityError constraint
  | InvalidRequestError
  | IndexError
  | AttributeError
  | TypeError

definition empty_db :: db where
  "empty_db = \<lparr>client_table = [], code_table = [], calcjob_table = [],
     calcjob_status_table = [], data_table = []\<rparr>"

text \<open>
  The end of a unit of work: on an error nothing of it is kept.
\<close>

definition flush :: "db \<Rightarrow> error + 'a \<times> db \<Rightarrow> (error + 'a) \<times> db" where
  "flush db res = (case res of Inl e \<Rightarrow> (Inl e, db) | Inr (a, db') \<Rightarrow> (Inr a, db'))"

text \<open>
  A primary key left unset is assigned by the database: one more than the largest
  key of the table (and 1 on an empty table).
\<close>

definition next_pk :: "int option list \<Rightarrow> int" where
  "next_pk pks = fold max (map (\<lambda>p. case p of None \<Rightarrow> 0 | Some k \<Rightarrow> k) pks) 0 + 1"

definition assign_pk :: "int option \<Rightarrow> int option list \<Rightarrow> int" where
  "assign_pk given pks = (case given of Some k \<Rightarrow> k | None \<Rightarrow> next_pk pks)"

text \<open>A column default applies when the attribute was left unset.\<close>

definition default :: "'a \<Rightarrow> 'a option \<Rightarrow> 'a option" where
  "default d v = (case v of None \<Rightarrow> Some d | Some x \<Rightarrow> Some x)"

subsection \<open>The name pool and \<open>random.choice\<close>\<close>

definition NAMES :: "string list" where
  "NAMES = [
    ''digital_dynamo'', ''futuristic_fusion'', ''optical_odyssey'', ''radiant_rocket'',
    ''super_sonic'', ''crystal_cruiser'', ''creative_cyber'', ''efficient_explorer'',
    ''virtual_venture'', ''nifty_navigator'', ''glorious_galaxy'',
    ''optimized_operations'', ''astonishing_adventure'', ''elegant_evolution'',
    ''smooth_symphony'', ''powerful_prodigy'', ''virtual_visionary'',
    ''sleek_sentinel'', ''energetic_explorer'', ''optimistic_odyssey'',
    ''fantastic_frontier'', ''digital_dominion'', ''efficient_evolution'',
    ''virtual_voyager'', ''nimble_navigator'', ''glorious_gateway'',
    ''optimized_operations'', ''astonishing_array'', ''elegant_enterprise'',
    ''sophisticated_symphony'', ''perfect_prodigy'', ''virtual_victory'',
    ''speedy_sentinel'', ''energetic_enterprise'', ''optimistic_optimizer'',
    ''futuristic_fortune'', ''dynamic_dynamo'', ''flawless_fusion'',
    ''optimal_odyssey'', ''radiant_realm'', ''superior_symphony'', ''crystal_crusader'',
    ''creative_computing'', ''efficient_exec'', ''virtual_vision'', ''nifty_network'',
    ''glorious_grid'', ''optimized_optimizer'', ''astonishing_accelerator'',
    ''elegant_explorer'']"

text \<open>
  \<open>random.choice(seq)\<close> raises \<open>IndexError\<close> on an empty sequence and returns
  \<open>seq[i]\<close> for a drawn index \<open>i\<close> below \<open>len(seq)\<close> otherwise. The draw is the
  parameter \<open>r\<close>, reduced modulo the length, so that every natural number is a draw
  and every index below the length is drawn by some \<open>r\<close>.
\<close>

definition random_choice :: "nat \<Rightarrow> 'a list \<Rightarrow> error + 'a" where
  "random_choice r seq =
     (if length seq = 0 then Inl IndexError else Inr (seq ! (r mod length seq)))"

definition default_label :: "nat \<Rightarrow> string option \<Rightarrow> error + string" where
  "default_label r given =
     (case given of Some l \<Rightarrow> Inr l | None \<Rightarrow> random_choice r NAMES)"

subsection \<open>Inserting rows\<close>

text \<open>
  \<open>session.add(Client(...))\<close> followed by a flush. The defaults of \<open>label\<close>,
  \<open>fsystem\<close> and \<open>small_file_size_mb\<close> are filled in, then the row is written.
\<close>

definition insert_client :: "nat \<Rightarrow> client \<Rightarrow> db \<Rightarrow> error + client \<times> db" where
  "insert_client r c db =
     (case default_label r (cl_label c) of
        Inl e \<Rightarrow> Inl e
      | Inr l \<Rightarrow>
          (let row = c\<lparr>cl_pk := Some (assign_pk (cl_pk c) (map cl_pk (client_table db))),
                        cl_label := Some l,
                        cl_fsystem := default Posix (cl_fsystem c),
                        cl_small_file_size_mb := default 5 (cl_small_file_size_mb c)\<rparr>
           in if cl_pk row \<in> set (map cl_pk (client_table db))
              then Inl (IntegrityError (PrimaryKey ''client.pk''))
              else if cl_label row \<in> set (map cl_label (client_table db))
              then Inl (IntegrityError (Unique ''client.label''))
              else Inr (row, db\<lparr>client_table := client_table db @ [row]\<rparr>)))"

definition add_client :: "nat \<Rightarrow> client \<Rightarrow> db \<Rightarrow> (error + client) \<times> db" where
  "add_client r c db = flush db (insert_client r c db)"

text \<open>\<open>session.add(Code(...))\<close>: defaults of \<open>label\<close> and \<open>upload_paths\<close>.\<close>

definition insert_code :: "nat \<Rightarrow> code \<Rightarrow> db \<Rightarrow> error + code \<times> db" where
  "insert_code r c db =
     (case default_label r (co_label c) of
        Inl e \<Rightarrow> Inl e
      | Inr l \<Rightarrow>
          (let row = c\<lparr>co_pk := Some (assign_pk (co_pk c) (map co_pk (code_table db))),
                        co_label := Some l,
                        co_upload_paths := default [] (co_upload_paths c)\<rparr>
           in if co_pk row \<in> set (map co_pk (code_table db))
              then Inl (IntegrityError (PrimaryKey ''code.pk''))
              else if Some (co_client_pk row) \<notin> set (map cl_pk (client_table db))
              then Inl (IntegrityError (ForeignKey ''code.client_pk''))
              else if (co_client_pk row, co_label row)
                        \<in> set (map (\<lambda>x. (co_client_pk x, co_label x)) (code_table db))
              then Inl (IntegrityError (Unique ''code.client_pk, code.label''))
              else Inr (row, db\<lparr>code_table := code_table db @ [row]\<rparr>)))"

definition add_code :: "nat \<Rightarrow> code \<Rightarrow> db \<Rightarrow> (error + code) \<times> db" where
  "add_code r c db = flush db (insert_code r c db)"

text \<open>
  \<open>Processing\<close>: \<open>step\<close> defaults to \<open>"created"\<close>; \<open>job_id\<close> and \<open>exception\<close>
  are nullable and have no default. \<open>calcjob_pk\<close> carries no uniqueness constraint.
\<close>

definition insert_processing :: "processing \<Rightarrow> db \<Rightarrow> error + processing \<times> db" where
  "insert_processing p db =
     (let row = p\<lparr>pr_pk := Some (assign_pk (pr_pk p) (map pr_pk (calcjob_status_table db))),
                   pr_step := default Created (pr_step p)\<rparr>
      in if pr_pk row \<in> set (map pr_pk (calcjob_status_table db))
         then Inl (IntegrityError (PrimaryKey ''calcjob_status.pk''))
         else if Some (pr_calcjob_pk row) \<notin> set (map cj_pk (calcjob_table db))
         then Inl (IntegrityError (ForeignKey ''calcjob_status.calcjob_pk''))
         else Inr (row, db\<lparr>calcjob_status_table := calcjob_status_table db @ [row]\<rparr>))"

definition add_processing :: "processing \<Rightarrow> db \<Rightarrow> (error + processing) \<times> db" where
  "add_processing p db = flush db (insert_processing p db)"

definition insert_datanode :: "datanode \<Rightarrow> db \<Rightarrow> error + datanode \<times> db" where
  "insert_datanode d db =
     (let row = d\<lparr>dn_pk := Some (assign_pk (dn_pk d) (map dn_pk (data_table db))),
                   dn_attributes := default [] (dn_attributes d)\<rparr>
      in if dn_pk row \<in> set (map dn_pk (data_table db))
         then Inl (IntegrityError (PrimaryKey ''data.pk''))
         else if Some (dn_creator_pk row) \<notin> set (map cj_pk (calcjob_table db))
         then Inl (IntegrityError (ForeignKey ''data.creator_pk''))
         else Inr (row, db\<lparr>data_table := data_table db @ [row]\<rparr>))"

definition add_datanode :: "datanode \<Rightarrow> db \<Rightarrow> (error + datanode) \<times> db" where
  "add_datanode d db = flush db (insert_datanode d db)"

fun insert_datanodes :: "datanode list \<Rightarrow> db \<Rightarrow> error + db" where
  "insert_datanodes [] db = Inr db"
| "insert_datanodes (d # ds) db =
     (case insert_datanode d db of
        Inl e \<Rightarrow> Inl e
      | Inr (_, db') \<Rightarrow> insert_datanodes ds db')"

text \<open>
  \<open>CalcJob\<close>: defaults of \<open>label\<close> (the empty string), \<open>uuid\<close> (\<open>str(uuid4())\<close>,
  the drawn value is the parameter \<open>u\<close>), \<open>parameters\<close>, \<open>upload\<close> and
  \<open>download_globs\<close>. The relationships \<open>status\<close> and \<open>outputs\<close> cascade
  \<open>"all, delete-orphan"\<close>: a \<open>Processing\<close> and the \<open>DataNode\<close>s attached to the new
  instance are inserted in the same unit of work, their foreign key set to the key of
  the new row.
\<close>

definition insert_calcjob ::
  "string \<Rightarrow> calcjob \<Rightarrow> processing option \<Rightarrow> datanode list \<Rightarrow> db \<Rightarrow> error + calcjob \<times> db" where
  "insert_calcjob u c status outputs db =
     (let row = c\<lparr>cj_pk := Some (assign_pk (cj_pk c) (map cj_pk (calcjob_table db))),
                   cj_label := default [] (cj_label c),
                   cj_uuid := default u (cj_uuid c),
                   cj_parameters := default [] (cj_parameters c),
                   cj_upload := default [] (cj_upload c),
                   cj_download_globs := default [] (cj_download_globs c)\<rparr>
      in if cj_pk row \<in> set (map cj_pk (calcjob_table db))
         then Inl (IntegrityError (PrimaryKey ''calcjob.pk''))
         else if Some (cj_code_pk row) \<notin> set (map co_pk (code_table db))
         then Inl (IntegrityError (ForeignKey ''calcjob.code_pk''))
         else
           (let k = assign_pk (cj_pk c) (map cj_pk (calcjob_table db));
                db1 = db\<lparr>calcjob_table := calcjob_table db @ [row]\<rparr>
            in case (case status of
                       None \<Rightarrow> Inr db1
                     | Some p \<Rightarrow>
                         (case insert_processing (p\<lparr>pr_calcjob_pk := k\<rparr>) db1 of
                            Inl e \<Rightarrow> Inl e
                          | Inr (_, db2) \<Rightarrow> Inr db2)) of
                 Inl e \<Rightarrow> Inl e
               | Inr db2 \<Rightarrow>
                   (case insert_datanodes (map (\<lambda>d. d\<lparr>dn_creator_pk := k\<rparr>) outputs) db2 of
                      Inl e \<Rightarrow> Inl e
                    | Inr db3 \<Rightarrow> Inr (row, db3))))"

definition add_calcjob ::
  "string \<Rightarrow> calcjob \<Rightarrow> processing option \<Rightarrow> datanode list \<Rightarrow> db \<Rightarrow> (error + calcjob) \<times> db" where
  "add_calcjob u c status outputs db = flush db (insert_calcjob u c status outputs db)"

subsection \<open>Changing a label\<close>

text \<open>
  \<open>client.label = l\<close> on a persistent instance, followed by a flush: an \<open>UPDATE\<close> of
  the row with that key, under the same uniqueness constraint.
\<close>

definition set_client_label :: "int \<Rightarrow> string \<Rightarrow> db \<Rightarrow> (error + unit) \<times> db" where
  "set_client_label k l db =
     (if Some k \<notin> set (map cl_pk (client_table db)) then (Inl InvalidRequestError, db)
      else if Some l \<in> set (map cl_label (filter (\<lambda>c. cl_pk c \<noteq> Some k) (client_table db)))
      then (Inl (IntegrityError (Unique ''client.label'')), db)
      else (Inr (), db\<lparr>client_table :=
              map (\<lambda>c. if cl_pk c = Some k then c\<lparr>cl_label := Some l\<rparr> else c)
                (client_table db)\<rparr>))"

definition set_code_label :: "int \<Rightarrow> string \<Rightarrow> db \<Rightarrow> (error + unit) \<times> db" where
  "set_code_label k l db =
     (case find (\<lambda>c. co_pk c = Some k) (code_table db) of
        None \<Rightarrow> (Inl InvalidRequestError, db)
      | Some old \<Rightarrow>
          if (co_client_pk old, Some l)
               \<in> set (map (\<lambda>x. (co_client_pk x, co_label x))
                        (filter (\<lambda>c. co_pk c \<noteq> Some k) (code_table db)))
          then (Inl (IntegrityError (Unique ''code.client_pk, code.label'')), db)
          else (Inr (), db\<lparr>code_table :=
                  map (\<lambda>c. if co_pk c = Some k then c\<lparr>co_label := Some l\<rparr> else c)
                    (code_table db)\<rparr>))"

subsection \<open>Deleting a \<open>CalcJob\<close>\<close>

text \<open>
  \<open>session.delete(calc)\<close> followed by a flush, for the persistent instance with key
  \<open>k\<close>. The cascades of \<open>status\<close> and \<open>outputs\<close> delete the objects the two
  relationships load: \<open>outputs\<close> is a list, all \<open>DataNode\<close>s whose \<open>creator_pk\<close> is
  \<open>k\<close>; \<open>status\<close> is annotated as a single \<open>Processing\<close>, so it loads one row whose
  \<open>calcjob_pk\<close> is \<open>k\<close>, the first one. Then the row of the \<open>CalcJob\<close> itself is
  deleted, which the foreign key of \<open>calcjob_status\<close> refuses while another row
  still refers to it.
\<close>

fun remove_first :: "('a \<Rightarrow> bool) \<Rightarrow> 'a list \<Rightarrow> 'a list" where
  "remove_first P [] = []"
| "remove_first P (x # xs) = (if P x then xs else x # remove_first P xs)"

definition delete_calcjob :: "int \<Rightarrow> db \<Rightarrow> (error + unit) \<times> db" where
  "delete_calcjob k db =
     (if Some k \<notin> set (map cj_pk (calcjob_table db)) then (Inl InvalidRequestError, db)
      else
        (let statuses = remove_first (\<lambda>p. pr_calcjob_pk p = k) (calcjob_status_table db);
             outputs = filter (\<lambda>d. dn_creator_pk d \<noteq> k) (data_table db)
         in if k \<in> set (map pr_calcjob_pk statuses)
            then (Inl (IntegrityError (ForeignKey ''calcjob_status.calcjob_pk'')), db)
            else (Inr (), db\<lparr>calcjob_table := filter (\<lambda>c. cj_pk c \<noteq> Some k) (calcjob_table db),
                               calcjob_status_table := statuses,
                               data_table := outputs\<rparr>)))"

section \<open>Paths: \<open>Client.work_path\<close> and \<open>CalcJob.remote_path\<close>\<close>

text \<open>
  The two properties build \<open>PurePosixPath\<close> and \<open>PureWindowsPath\<close> objects of the
  standard library and join them with the operator \<open>/\<close>. The part of \<open>pathlib\<close>
  (CPython 3.11) that these calls run is transcribed here: \<open>splitroot\<close> of the two
  flavours, \<open>parse_parts\<close>, \<open>join_parsed_parts\<close>, \<open>_make_child\<close> and \<open>__str__\<close>.
  A path object holds its flavour and the triple \<open>_drv\<close>, \<open>_root\<close>, \<open>_parts\<close>;
  as in \<open>pathlib\<close>, \<open>_parts\<close> starts with the anchor \<open>drv + root\<close> when there is
  one. Strings are lists of bytes here, which agrees with Python's strings on ASCII.
\<close>

definition slash :: char where
  "slash = CHR ''/''"

definition backslash :: char where
  "backslash = CHR 0x5C"

definition colon :: char where
  "colon = CHR '':''"

record pure_path =
  flavour :: fsystem
  drv :: string
  root :: string
  parts :: "string list"

text \<open>\<open>s[i:j]\<close>, \<open>s.startswith(p)\<close>, \<open>s.find(c, start)\<close>, \<open>s.replace(a, b)\<close>,
  \<open>s.split(c)\<close>, \<open>s.lstrip(c)\<close>, \<open>sep.join(xs)\<close> and \<open>s.lower()\<close> on ASCII.\<close>

definition slice :: "nat \<Rightarrow> nat \<Rightarrow> string \<Rightarrow> string" where
  "slice i j s = take (j - i) (drop i s)"

definition startswith :: "string \<Rightarrow> string \<Rightarrow> bool" where
  "startswith p s = (take (length p) s = p)"

definition find_char :: "char \<Rightarrow> nat \<Rightarrow> string \<Rightarrow> nat option" where
  "find_char c start s =
     (if c \<in> set (drop start s)
      then Some (start + length (takeWhile (\<lambda>x. x \<noteq> c) (drop start s)))
      else None)"

definition replace_char :: "char \<Rightarrow> char \<Rightarrow> string \<Rightarrow> string" where
  "replace_char a b s = map (\<lambda>c. if c = a then b else c) s"

fun split_on :: "char \<Rightarrow> string \<Rightarrow> string list" where
  "split_on c [] = [[]]"
| "split_on c (x # xs) =
     (if x = c then [] # split_on c xs
      else (case split_on c xs of
              [] \<Rightarrow> [[x]]
            | w # ws \<Rightarrow> (x # w) # ws))"

definition lstrip :: "char \<Rightarrow> string \<Rightarrow> string" where
  "lstrip c s = dropWhile (\<lambda>x. x = c) s"

fun join_sep :: "string \<Rightarrow> string list \<Rightarrow> string" where
  "join_sep sep [] = []"
| "join_sep sep [x] = x"
| "join_sep sep (x # y # ys) = x @ sep @ join_sep sep (y # ys)"

definition lower_char :: "char \<Rightarrow> char" where
  "lower_char c =
     (if c \<in> set ''ABCDEFGHIJKLMNOPQRSTUVWXYZ''
      then char_of (of_char c + (32::nat)) else c)"

definition lower :: "string \<Rightarrow> string" where
  "lower s = map lower_char s"

definition drive_letters :: "char set" where
  "drive_letters = set ''abcdefghijklmnopqrstuvwxyzABCDEFGHIJKLMNOPQRSTUVWXYZ''"

text \<open>The separator of a flavour, and \<open>_PosixFlavour.splitroot\<close>.\<close>

fun sep :: "fsystem \<Rightarrow> char" where
  "sep Posix = slash"
| "sep Windows = backslash"

definition posix_splitroot :: "string \<Rightarrow> string \<times> string \<times> string" where
  "posix_splitroot part =
     (if part \<noteq> [] \<and> hd part = slash
      then (let stripped_part = lstrip slash part
            in if length part - length stripped_part = 2
               then ([], [slash, slash], stripped_part)
               else ([], [slash], stripped_part))
      else ([], [], part))"

text \<open>
  \<open>_WindowsFlavour._split_extended_path\<close> and \<open>_WindowsFlavour.splitroot\<close>: an
  extended prefix \<open>\\?\\<close>, then either a UNC share (the drive is
  \<open>\\machine\mountpoint\<close>) or a drive letter with a colon, then the root.
\<close>

definition ext_namespace_prefix :: string where
  "ext_namespace_prefix = [backslash, backslash, CHR ''?'', backslash]"

definition split_extended_path :: "string \<Rightarrow> string \<times> string" where
  "split_extended_path s =
     (if startswith ext_namespace_prefix s
      then (let prefix = slice 0 4 s; s1 = drop 4 s
            in if startswith (''UNC'' @ [backslash]) s1
               then (prefix @ slice 0 3 s1, backslash # drop 3 s1)
               else (prefix, s1))
      else ([], s))"

definition windows_splitroot :: "string \<Rightarrow> string \<times> string \<times> string" where
  "windows_splitroot part0 =
     (let (prefix, part) =
            (if slice 1 2 part0 = [backslash] \<and> slice 0 1 part0 = [backslash]
             then split_extended_path part0 else ([], part0));
          first = slice 0 1 part;
          second = slice 1 2 part;
          third = slice 2 3 part;
          unc = (if second = [backslash] \<and> first = [backslash] \<and> third \<noteq> [backslash]
                 then (case find_char backslash 2 part of
                         None \<Rightarrow> None
                       | Some index \<Rightarrow>
                           (case find_char backslash (index + 1) part of
                              None \<Rightarrow> Some (length part)
                            | Some index2 \<Rightarrow>
                                if index2 = index + 1 then None else Some index2))
                 else None)
      in case unc of
           Some index2 \<Rightarrow>
             (if prefix \<noteq> []
              then (prefix @ slice 1 index2 part, [backslash], drop (index2 + 1) part)
              else (slice 0 index2 part, [backslash], drop (index2 + 1) part))
         | None \<Rightarrow>
             (let has_drv = (second = [colon] \<and> first \<noteq> [] \<and> hd first \<in> drive_letters);
                  drv1 = (if has_drv then slice 0 2 part else []);
                  part1 = (if has_drv then drop 2 part else part);
                  first1 = (if has_drv then third else first)
              in if first1 = [backslash]
                 then (prefix @ drv1, first1, lstrip backslash part1)
                 else (prefix @ drv1, [], part1)))"

fun splitroot :: "fsystem \<Rightarrow> string \<Rightarrow> string \<times> string \<times> string" where
  "splitroot Posix part = posix_splitroot part"
| "splitroot Windows part = windows_splitroot part"

text \<open>
  \<open>_Flavour.parse_parts\<close>, for the one-element argument lists that the constructor
  call \<open>PurePosixPath(self.work_dir)\<close> and the operator \<open>/\<close> pass. An empty string
  is skipped; the Windows flavour first replaces its alternative separator \<open>/\<close>.
\<close>

definition parse_parts :: "fsystem \<Rightarrow> string \<Rightarrow> string \<times> string \<times> string list" where
  "parse_parts fl part0 =
     (if part0 = [] then ([], [], [])
      else
        (let part = (case fl of Posix \<Rightarrow> part0 | Windows \<Rightarrow> replace_char slash backslash part0);
             (d, r, rel) = splitroot fl part;
             parsed = (if sep fl \<in> set rel
                       then filter (\<lambda>x. x \<noteq> [] \<and> x \<noteq> ''.'') (split_on (sep fl) rel)
                       else if rel \<noteq> [] \<and> rel \<noteq> ''.'' then [rel] else [])
         in (d, r, (if d \<noteq> [] \<or> r \<noteq> [] then [d @ r] else []) @ parsed)))"

fun casefold :: "fsystem \<Rightarrow> string \<Rightarrow> string" where
  "casefold Posix s = s"
| "casefold Windows s = lower s"

definition join_parsed_parts ::
  "fsystem \<Rightarrow> string \<Rightarrow> string \<Rightarrow> string list \<Rightarrow> string \<Rightarrow> string \<Rightarrow> string list
     \<Rightarrow> string \<times> string \<times> string list" where
  "join_parsed_parts fl d r ps d2 r2 ps2 =
     (if r2 \<noteq> [] then
        (if d2 = [] \<and> d \<noteq> [] then (d, r2, (d @ r2) # tl ps2) else (d2, r2, ps2))
      else if d2 \<noteq> [] then
        (if d2 = d \<or> casefold fl d2 = casefold fl d then (d, r, ps @ tl ps2)
         else (d2, r2, ps2))
      else (d, r, ps @ ps2))"

definition from_parts :: "fsystem \<Rightarrow> string \<Rightarrow> pure_path" where
  "from_parts fl s =
     (let (d, r, ps) = parse_parts fl s
      in \<lparr>flavour = fl, drv = d, root = r, parts = ps\<rparr>)"

definition PurePosixPath :: "string \<Rightarrow> pure_path" where
  "PurePosixPath s = from_parts Posix s"

definition PureWindowsPath :: "string \<Rightarrow> pure_path" where
  "PureWindowsPath s = from_parts Windows s"

text \<open>\<open>self / key\<close> for a string \<open>key\<close>: \<open>_make_child((key,))\<close>.\<close>

definition truediv :: "pure_path \<Rightarrow> string \<Rightarrow> pure_path" where
  "truediv self key =
     (let (d2, r2, ps2) = parse_parts (flavour self) key;
          (d, r, ps) = join_parsed_parts (flavour self) (drv self) (root self) (parts self)
                         d2 r2 ps2
      in \<lparr>flavour = flavour self, drv = d, root = r, parts = ps\<rparr>)"

definition format_parsed_parts :: "fsystem \<Rightarrow> string \<Rightarrow> string \<Rightarrow> string list \<Rightarrow> string" where
  "format_parsed_parts fl d r ps =
     (if d \<noteq> [] \<or> r \<noteq> [] then d @ r @ join_sep [sep fl] (tl ps)
      else join_sep [sep fl] ps)"

definition str_path :: "pure_path \<Rightarrow> string" where
  "str_path self =
     (let s = format_parsed_parts (flavour self) (drv self) (root self) (parts self)
      in if s = [] then ''.'' else s)"

text \<open>
  \<^verbatim>\<open>
  @property
  def work_path(self):
      return (PurePosixPath(self.work_dir) if self.fsystem == "posix"
              else PureWindowsPath(self.work_dir))
  \<close>
\<close>

definition work_path :: "'a client_scheme \<Rightarrow> pure_path" where
  "work_path self =
     (if cl_fsystem self = Some Posix then PurePosixPath (cl_work_dir self)
      else PureWindowsPath (cl_work_dir self))"

text \<open>
  \<^verbatim>\<open>
  @property
  def remote_path(self):
      return self.code.client.work_path / "workflows" / self.uuid
  \<close>
  \<open>self.code\<close> and \<open>.client\<close> follow the foreign keys \<open>code_pk\<close> and
  \<open>client_pk\<close>; a relationship whose row does not exist loads \<open>None\<close>, and the
  attribute access on it raises \<open>AttributeError\<close>. A \<open>uuid\<close> still unset is
  \<open>None\<close>, which the operator \<open>/\<close> refuses with \<open>TypeError\<close>.
\<close>

definition calcjob_code :: "db \<Rightarrow> calcjob \<Rightarrow> code option" where
  "calcjob_code db self = find (\<lambda>c. co_pk c = Some (cj_code_pk self)) (code_table db)"

definition code_client :: "db \<Rightarrow> code \<Rightarrow> client option" where
  "code_client db self = find (\<lambda>c. cl_pk c = Some (co_client_pk self)) (client_table db)"

definition remote_path :: "db \<Rightarrow> calcjob \<Rightarrow> error + pure_path" where
  "remote_path db self =
     (case calcjob_code db self of
        None \<Rightarrow> Inl AttributeError
      | Some code \<Rightarrow>
          (case code_client db code of
             None \<Rightarrow> Inl AttributeError
           | Some client \<Rightarrow>
               (case cj_uuid self of
                  None \<Rightarrow> Inl TypeError
                | Some u \<Rightarrow> Inr (truediv (truediv (work_path client) ''workflows'') u))))"

text \<open>
  A string that \<open>parse_parts\<close> reads as one relative component: not empty, not
  \<open>.\<close>, without a separator of the flavour and, on Windows, without a drive letter
  and colon in front. The text of a \<open>uuid4\<close> (hexadecimal digits and dashes) is
  one.
\<close>

definition plain_segment :: "fsystem \<Rightarrow> string \<Rightarrow> bool" where
  "plain_segment fl s \<longleftrightarrow>
     s \<noteq> [] \<and> s \<noteq> ''.'' \<and> slash \<notin> set s \<and>
     (case fl of
        Posix \<Rightarrow> True
      | Windows \<Rightarrow> backslash \<notin> set s \<and> \<not> (slice 1 2 s = [colon] \<and> hd s \<in> drive_letters))"

text \<open>
  One component of a work directory, between two separators: not empty, not \<open>.\<close>
  and without a separator (on Windows, neither \<open>\\<close> nor the alternative
  \<open>/\<close>).
\<close>

definition component :: "fsystem \<Rightarrow> string \<Rightarrow> bool" where
  "component fl s \<longleftrightarrow>
     s \<noteq> [] \<and> s \<noteq> ''.'' \<and> slash \<notin> set s \<and>
     (case fl of Posix \<Rightarrow> True | Windows \<Rightarrow> backslash \<notin> set s)"

section \<open>Sequences of writes\<close>

text \<open>
  The writes above, as one datatype, and the store reached from the empty one by a
  sequence of them. A write that raises leaves the store as it was.
\<close>

datatype operation =
    AddClient nat client
  | AddCode nat code
  | AddCalcJob string calcjob "processing option" "datanode list"
  | AddProcessing processing
  | AddDataNode datanode
  | SetClientLabel int string
  | SetCodeLabel int string
  | DeleteCalcJob int

fun apply_operation :: "operation \<Rightarrow> db \<Rightarrow> db" where
  "apply_operation (AddClient r c) db = snd (add_client r c db)"
| "apply_operation (AddCode r c) db = snd (add_code r c db)"
| "apply_operation (AddCalcJob u c status outputs) db = snd (add_calcjob u c status outputs db)"
| "apply_operation (AddProcessing p) db = snd (add_processing p db)"
| "apply_operation (AddDataNode d) db = snd (add_datanode d db)"
| "apply_operation (SetClientLabel k l) db = snd (set_client_label k l db)"
| "apply_operation (SetCodeLabel k l) db = snd (set_code_label k l db)"
| "apply_operation (DeleteCalcJob k) db = snd (delete_calcjob k db)"

definition run :: "operation list \<Rightarrow> db \<Rightarrow> db" where
  "run ops db = fold apply_operation ops db"

text \<open>The rows that refer to a given \<open>CalcJob\<close>.\<close>

definition statuses_of :: "int \<Rightarrow> db \<Rightarrow> processing list" where
  "statuses_of k db = filter (\<lambda>p. pr_calcjob_pk p = k) (calcjob_status_table db)"

definition outputs_of :: "int \<Rightarrow> db \<Rightarrow> datanode list" where
  "outputs_of k db = filter (\<lambda>d. dn_creator_pk d = k) (data_table db)"

text \<open>
  Referential integrity of \<open>calcjob_status\<close>: every row refers to a \<open>CalcJob\<close>
  that is there.
\<close>

definition status_fk_ok :: "db \<Rightarrow> bool" where
  "status_fk_ok db =
     list_all (\<lambda>p. Some (pr_calcjob_pk p) \<in> set (map cj_pk (calcjob_table db)))
       (calcjob_status_table db)"

section \<open>Invariants of the store\<close>

text \<open>
  Primary keys and labels are unique: no two rows of \<open>client\<close> share a \<open>pk\<close> or a
  \<open>label\<close>, no two rows of \<open>code\<close> share a \<open>pk\<close> or the pair of \<open>client_pk\<close>
  and \<open>label\<close>.
\<close>

definition keys_ok :: "db \<Rightarrow> bool" where
  "keys_ok db \<longleftrightarrow>
     distinct (map cl_pk (client_table db)) \<and>
     distinct (map cl_label (client_table db)) \<and>
     distinct (map co_pk (code_table db)) \<and>
     distinct (map (\<lambda>x. (co_client_pk x, co_label x)) (code_table db))"

text \<open>
  Referential integrity of \<open>calcjob\<close> and \<open>code\<close>: every stored \<open>CalcJob\<close>
  has its \<open>uuid\<close> set and refers to a stored \<open>Code\<close>, and every stored \<open>Code\<close>
  refers to a stored \<open>Client\<close>.
\<close>

definition refs_ok :: "db \<Rightarrow> bool" where
  "refs_ok db \<longleftrightarrow>
     list_all (\<lambda>cj. cj_uuid cj \<noteq> None \<and>
                  Some (cj_code_pk cj) \<in> set (map co_pk (code_table db)))
       (calcjob_table db) \<and>
     list_all (\<lambda>co. Some (co_client_pk co) \<in> set (map cl_pk (client_table db)))
       (code_table db)"

section \<open>Rendering the script of a \<open>Code\<close>\<close>

text \<open>
  Modelled from the spec: the function that renders \<open>Code.script\<close> is missing from
  \<open>_orm.py\<close>, which only stores the template string. The spec asks for three named
  bindings, profile, template and invocation, and for the failure
  \<open>TemplateRenderError\<close> when a referenced field does not exist on them. A binding
  is an object with named fields; the placeholder syntax belongs to the template
  engine, so the script is read through a parameter \<open>parse\<close> into literal text and
  placeholders, each naming a binding and a field of it.
\<close>

datatype render_error = TemplateRenderError

datatype piece = Literal string | Placeholder string string

type_synonym binding = "string \<rightharpoonup> string"

type_synonym bindings = "string \<rightharpoonup> binding"

text \<open>
  Modelled from the spec: the three bindings that rendering requires (the rendering
  function is missing from \<open>_orm.py\<close>).
\<close>

definition required_bindings :: "string list" where
  "required_bindings = [''profile'', ''template'', ''invocation'']"

text \<open>
  Modelled from the spec: one piece of the script (the rendering function is missing
  from \<open>_orm.py\<close>). A placeholder whose binding or field does not exist fails.
\<close>

fun render_piece :: "bindings \<Rightarrow> piece \<Rightarrow> render_error + string" where
  "render_piece bs (Literal s) = Inr s"
| "render_piece bs (Placeholder b f) =
     (case bs b of
        None \<Rightarrow> Inl TemplateRenderError
      | Some obj \<Rightarrow>
          (case obj f of
             None \<Rightarrow> Inl TemplateRenderError
           | Some v \<Rightarrow> Inr v))"

text \<open>
  Modelled from the spec: the pieces in order, stopping at the first failure (the
  rendering function is missing from \<open>_orm.py\<close>).
\<close>

fun render_pieces :: "bindings \<Rightarrow> piece list \<Rightarrow> render_error + string" where
  "render_pieces bs [] = Inr []"
| "render_pieces bs (p # ps) =
     (case render_piece bs p of
        Inl e \<Rightarrow> Inl e
      | Inr s \<Rightarrow>
          (case render_pieces bs ps of
             Inl e \<Rightarrow> Inl e
           | Inr rest \<Rightarrow> Inr (s @ rest)))"

text \<open>
  Modelled from the spec: rendering the script of a \<open>Code\<close> for an invocation whose
  Execution Status is \<open>status\<close> (the rendering function is missing from
  \<open>_orm.py\<close>). A render error is reported to the caller and nothing stored is
  changed: the Execution Status is handed back as it was.
\<close>

definition render_script ::
  "(string \<Rightarrow> piece list) \<Rightarrow> bindings \<Rightarrow> code \<Rightarrow> processing
     \<Rightarrow> (render_error + string) \<times> processing" where
  "render_script parse bs self status =
     (if list_ex (\<lambda>n. bs n = None) required_bindings
      then (Inl TemplateRenderError, status)
      else (case render_pieces bs (parse (co_script self)) of
              Inl e \<Rightarrow> (Inl e, status)
            | Inr text \<Rightarrow> (Inr text, status)))"

section \<open>Example values\<close>

definition example_client :: client where
  "example_client =
     \<lparr>cl_pk = Some 1, cl_label = Some ''alpha'', cl_client_url = ''https://gateway.example'',
      cl_client_id = ''user'', cl_token_uri = ''https://auth.example/token'',
      cl_client_secret = ''secret'', cl_machine_name = ''daint'', cl_work_dir = ''/home/u'',
      cl_fsystem = Some Posix, cl_small_file_size_mb = Some 5\<rparr>"

definition example_windows_client :: client where
  "example_windows_client =
     example_client\<lparr>cl_pk := Some 2, cl_label := Some ''beta'',
       cl_work_dir := ''C:'' @ [backslash] @ ''Users'' @ [backslash] @ ''u'',
       cl_fsystem := Some Windows\<rparr>"

definition new_client :: client where
  "new_client = example_client\<lparr>cl_pk := None, cl_label := None, cl_fsystem := None,
     cl_small_file_size_mb := None\<rparr>"

definition example_code :: code where
  "example_code =
     \<lparr>co_pk = Some 1, co_label = Some ''alpha'', co_client_pk = 1,
      co_script = ''run'', co_upload_paths = Some []\<rparr>"

definition new_code :: code where
  "new_code = example_code\<lparr>co_pk := None, co_label := None, co_upload_paths := None\<rparr>"

definition example_calcjob :: calcjob where
  "example_calcjob =
     \<lparr>cj_pk = Some 1, cj_label = Some [], cj_uuid = Some ''abc-123'', cj_code_pk = 1,
      cj_parameters = Some [], cj_upload = Some [], cj_download_globs = Some []\<rparr>"

definition new_calcjob :: calcjob where
  "new_calcjob = example_calcjob\<lparr>cj_pk := None, cj_label := None, cj_uuid := None,
     cj_parameters := None, cj_upload := None, cj_download_globs := None\<rparr>"

definition new_processing :: processing where
  "new_processing =
     \<lparr>pr_pk = None, pr_calcjob_pk = 1, pr_step = None, pr_job_id = None,
      pr_exception = None\<rparr>"

definition example_finalised :: processing where
  "example_finalised =
     \<lparr>pr_pk = Some 1, pr_calcjob_pk = 1, pr_step = Some Finalised, pr_job_id = Some ''42'',
      pr_exception = None\<rparr>"

definition new_datanode :: datanode where
  "new_datanode = \<lparr>dn_pk = None, dn_attributes = None, dn_creator_pk = 1\<rparr>"

text \<open>A store with one \<open>Client\<close> and one \<open>Code\<close> of it.\<close>

definition example_db :: db where
  "example_db = empty_db\<lparr>client_table := [example_client], code_table := [example_code]\<rparr>"

text \<open>The same for the \<open>Client\<close> on a Windows file system.\<close>

definition example_windows_db :: db where
  "example_windows_db =
     empty_db\<lparr>client_table := [example_windows_client],
       code_table := [example_code\<lparr>co_client_pk := 2\<rparr>]\<rparr>"

definition example_submitting :: processing where
  "example_submitting = example_finalised\<lparr>pr_step := Some Submitting, pr_job_id := None\<rparr>"

text \<open>
  A gateway that refuses the first construction and accepts every later one; the
  world counts the constructions attempted so far, the handle is the pair of the
  arguments.
\<close>

definition flaky_gateway :: "(nat, string, string \<times> credentials_auth) firecrest_ctor" where
  "flaky_gateway w url auth =
     (if w = 0 then (Inl ''unreachable'', Suc w) else (Inr (url, auth), Suc w))"

definition example_instance :: "(string \<times> credentials_auth) client_instance" where
  "example_instance = client.extend example_client
     (client_instance.fields None)"

text \<open>A script of one literal and one placeholder, already split into pieces.\<close>

definition example_pieces :: "string \<Rightarrow> piece list" where
  "example_pieces s = [Literal s, Placeholder ''invocation'' ''uuid'']"

definition example_bindings :: bindings where
  "example_bindings =
     [''profile'' \<mapsto> [''label'' \<mapsto> ''alpha''],
      ''template'' \<mapsto> [''label'' \<mapsto> ''alpha''],
      ''invocation'' \<mapsto> [''uuid'' \<mapsto> ''abc-123'']]"

text \<open>
  Stores built by the writes above: one \<open>CalcJob\<close> created without a
  \<open>Processing\<close>; the same store after two \<open>Processing\<close> rows were added for
  that \<open>CalcJob\<close>; a store with two \<open>CalcJob\<close>s, each created with its
  \<open>Processing\<close> and its \<open>DataNode\<close>s; and that store after the first
  \<open>CalcJob\<close> was deleted.
\<close>

definition example_db_calcjob :: db where
  "example_db_calcjob = snd (add_calcjob ''abc-123'' new_calcjob None [] example_db)"

definition example_db_two_statuses :: db where
  "example_db_two_statuses =
     snd (add_processing new_processing (snd (add_processing new_processing example_db_calcjob)))"

definition example_db_full :: db where
  "example_db_full =
     snd (add_calcjob ''def-456'' new_calcjob (Some new_processing) [new_datanode]
       (snd (add_calcjob ''abc-123'' new_calcjob (Some new_processing) [new_datanode, new_datanode]
          example_db)))"

definition example_db_deleted :: db where
  "example_db_deleted = snd (delete_calcjob 1 example_db_full)"

section \<open>Properties\<close>

subsection \<open>Auxiliary facts\<close>

lemma length_NAMES: "length NAMES = 50"
  by (simp add: NAMES_def)

lemma random_choice_NAMES: "\<exists>l \<in> set NAMES. random_choice r NAMES = Inr l"
  unfolding random_choice_def by (simp add: length_NAMES)

lemma default_label_unset: "\<exists>l \<in> set NAMES. default_label r None = Inr l"
  by (simp add: default_label_def random_choice_NAMES)

lemma flush_Inr: "flush db res = (Inr a, db') \<longleftrightarrow> res = Inr (a, db')"
  by (auto simp: flush_def split: sum.splits)

lemma flush_Inl: "flush db res = (Inl e, db') \<longleftrightarrow> res = Inl e \<and> db' = db"
  by (auto simp: flush_def split: sum.splits)

lemma client_property_cached:
  "private_client self = Some h \<Longrightarrow> client_property mk self w = (Inr h, self, w)"
  by (simp add: client_property_def)

lemma client_accesses_cached:
  "private_client self = Some h \<Longrightarrow>
     client_accesses mk n self w = (replicate n (Inr h), self, w)"
  by (induction n) (simp_all add: client_property_cached)

subsection \<open>Fresh keys, and lists\<close>

lemma fold_max_ge_init: "(a::int) \<le> fold max xs a"
  by (induction xs arbitrary: a) (auto intro: order_trans [OF max.cobounded2])

lemma fold_max_ge_elem: "x \<in> set xs \<Longrightarrow> (x::int) \<le> fold max xs a"
proof (induction xs arbitrary: a)
  case Nil
  then show ?case by simp
next
  case (Cons y ys)
  show ?case
  proof (cases "x = y")
    case True
    have "y \<le> max y a" by simp
    also have "\<dots> \<le> fold max ys (max y a)" by (rule fold_max_ge_init)
    finally show ?thesis using True by simp
  next
    case False
    with Cons show ?thesis by simp
  qed
qed

lemma next_pk_fresh: "Some (next_pk pks) \<notin> set pks"
proof
  assume "Some (next_pk pks) \<in> set pks"
  then have "next_pk pks \<in> set (map (\<lambda>p. case p of None \<Rightarrow> 0 | Some k \<Rightarrow> k) pks)"
    by force
  then have "next_pk pks \<le> fold max (map (\<lambda>p. case p of None \<Rightarrow> 0 | Some k \<Rightarrow> k) pks) 0"
    by (rule fold_max_ge_elem)
  then show False by (simp add: next_pk_def)
qed

lemma assign_pk_unset_fresh: "Some (assign_pk None pks) \<notin> set pks"
  by (simp add: assign_pk_def next_pk_fresh)

lemma remove_first_subset: "set (remove_first P xs) \<subseteq> set xs"
  by (induction xs) auto

lemma remove_first_filter:
  "\<forall>x \<in> set (remove_first P xs). \<not> P x \<Longrightarrow> remove_first P xs = filter (\<lambda>x. \<not> P x) xs"
proof (induction xs)
  case Nil
  then show ?case by simp
next
  case (Cons x xs)
  show ?case
  proof (cases "P x")
    case True
    with Cons.prems have "\<forall>y \<in> set xs. \<not> P y" by simp
    then have "filter (\<lambda>x. \<not> P x) xs = xs" by (simp add: filter_id_conv)
    with True show ?thesis by simp
  next
    case False
    with Cons show ?thesis by simp
  qed
qed

lemma distinct_map_update:
  assumes pks: "distinct (map key xs)"
    and attrs: "distinct (map attr xs)"
    and new: "\<forall>x \<in> set xs. key x \<noteq> k \<longrightarrow> attr x \<noteq> a"
    and upd: "\<forall>x \<in> set xs. key x = k \<longrightarrow> attr (upd x) = a"
  shows "distinct (map (\<lambda>x. attr (if key x = k then upd x else x)) xs)"
  using assms
proof (induction xs)
  case Nil
  then show ?case by simp
next
  case (Cons x xs)
  let ?f = "\<lambda>x. attr (if key x = k then upd x else x)"
  have ih: "distinct (map ?f xs)"
    using Cons by simp
  show ?case
  proof (cases "key x = k")
    case True
    with Cons.prems(1) have others: "\<forall>y \<in> set xs. key y \<noteq> k"
      by (auto simp: image_iff)
    then have same: "map ?f xs = map attr xs"
      by simp
    from others Cons.prems(3) have "a \<notin> attr ` set xs" by auto
    moreover from True Cons.prems(4) have "attr (upd x) = a" by simp
    ultimately show ?thesis using True Cons.prems(2) by (simp add: same)
  next
    case False
    with Cons.prems(3) have ne: "attr x \<noteq> a" by simp
    from Cons.prems(2) have fresh: "attr x \<notin> attr ` set xs" by simp
    have "attr x \<notin> ?f ` set xs"
    proof
      assume "attr x \<in> ?f ` set xs"
      then obtain y where y: "y \<in> set xs" "attr x = ?f y"
        by auto
      show False
      proof (cases "key y = k")
        case True
        with y Cons.prems(4) have "attr x = a" by simp
        with ne show False by simp
      next
        case False
        with y have "attr x = attr y" by simp
        with y(1) fresh show False by simp
      qed
    qed
    with False ih show ?thesis by simp
  qed
qed

lemma key_update_same:
  "\<forall>x. key (upd x) = key x \<Longrightarrow>
     map (\<lambda>x. key (if key x = k then upd x else x)) xs = map key xs"
  by (induction xs) auto

subsection \<open>What a successful insert leaves behind\<close>

lemma insert_client_result:
  assumes "insert_client r c db = Inr (row, db')"
  shows "db' = db\<lparr>client_table := client_table db @ [row]\<rparr> \<and>
     cl_pk row \<notin> set (map cl_pk (client_table db)) \<and>
     cl_label row \<notin> set (map cl_label (client_table db))"
proof -
  from assms obtain l where l: "default_label r (cl_label c) = Inr l"
    by (cases "default_label r (cl_label c)") (simp_all add: insert_client_def)
  define row0 where "row0 = c\<lparr>cl_pk := Some (assign_pk (cl_pk c) (map cl_pk (client_table db))),
                        cl_label := Some l,
                        cl_fsystem := default Posix (cl_fsystem c),
                        cl_small_file_size_mb := default 5 (cl_small_file_size_mb c)\<rparr>"
  from assms l have
    "(if cl_pk row0 \<in> set (map cl_pk (client_table db))
      then Inl (IntegrityError (PrimaryKey ''client.pk''))
      else if cl_label row0 \<in> set (map cl_label (client_table db))
      then Inl (IntegrityError (Unique ''client.label''))
      else Inr (row0, db\<lparr>client_table := client_table db @ [row0]\<rparr>)) = Inr (row, db')"
    unfolding insert_client_def row0_def Let_def by simp
  then show ?thesis
    by (auto split: if_splits)
qed

lemma insert_code_result:
  assumes "insert_code r c db = Inr (row, db')"
  shows "db' = db\<lparr>code_table := code_table db @ [row]\<rparr> \<and>
     co_pk row \<notin> set (map co_pk (code_table db)) \<and>
     (co_client_pk row, co_label row)
        \<notin> set (map (\<lambda>x. (co_client_pk x, co_label x)) (code_table db))"
proof -
  from assms obtain l where l: "default_label r (co_label c) = Inr l"
    by (cases "default_label r (co_label c)") (simp_all add: insert_code_def)
  define row0 where "row0 = c\<lparr>co_pk := Some (assign_pk (co_pk c) (map co_pk (code_table db))),
                        co_label := Some l,
                        co_upload_paths := default [] (co_upload_paths c)\<rparr>"
  from assms l have
    "(if co_pk row0 \<in> set (map co_pk (code_table db))
      then Inl (IntegrityError (PrimaryKey ''code.pk''))
      else if Some (co_client_pk row0) \<notin> set (map cl_pk (client_table db))
      then Inl (IntegrityError (ForeignKey ''code.client_pk''))
      else if (co_client_pk row0, co_label row0)
                \<in> set (map (\<lambda>x. (co_client_pk x, co_label x)) (code_table db))
      then Inl (IntegrityError (Unique ''code.client_pk, code.label''))
      else Inr (row0, db\<lparr>code_table := code_table db @ [row0]\<rparr>)) = Inr (row, db')"
    unfolding insert_code_def row0_def Let_def by simp
  then show ?thesis
    by (auto split: if_splits)
qed

lemma insert_processing_result:
  assumes "insert_processing p db = Inr (row, db')"
  shows "db' = db\<lparr>calcjob_status_table := calcjob_status_table db @ [row]\<rparr> \<and>
     pr_calcjob_pk row = pr_calcjob_pk p \<and>
     Some (pr_calcjob_pk p) \<in> set (map cj_pk (calcjob_table db))"
proof -
  define row0 where "row0 = p\<lparr>pr_pk := Some (assign_pk (pr_pk p) (map pr_pk (calcjob_status_table db))),
                   pr_step := default Created (pr_step p)\<rparr>"
  from assms have
    "(if pr_pk row0 \<in> set (map pr_pk (calcjob_status_table db))
         then Inl (IntegrityError (PrimaryKey ''calcjob_status.pk''))
         else if Some (pr_calcjob_pk row0) \<notin> set (map cj_pk (calcjob_table db))
         then Inl (IntegrityError (ForeignKey ''calcjob_status.calcjob_pk''))
         else Inr (row0, db\<lparr>calcjob_status_table := calcjob_status_table db @ [row0]\<rparr>))
     = Inr (row, db')"
    unfolding insert_processing_def row0_def Let_def by simp
  moreover have "pr_calcjob_pk row0 = pr_calcjob_pk p"
    by (simp add: row0_def)
  ultimately show ?thesis
    by (auto split: if_splits)
qed

lemma insert_datanode_result:
  assumes "insert_datanode d db = Inr (row, db')"
  shows "db' = db\<lparr>data_table := data_table db @ [row]\<rparr> \<and>
     dn_creator_pk row = dn_creator_pk d"
proof -
  define row0 where "row0 = d\<lparr>dn_pk := Some (assign_pk (dn_pk d) (map dn_pk (data_table db))),
                   dn_attributes := default [] (dn_attributes d)\<rparr>"
  from assms have
    "(if dn_pk row0 \<in> set (map dn_pk (data_table db))
         then Inl (IntegrityError (PrimaryKey ''data.pk''))
         else if Some (dn_creator_pk row0) \<notin> set (map cj_pk (calcjob_table db))
         then Inl (IntegrityError (ForeignKey ''data.creator_pk''))
         else Inr (row0, db\<lparr>data_table := data_table db @ [row0]\<rparr>))
     = Inr (row, db')"
    unfolding insert_datanode_def row0_def Let_def by simp
  moreover have "dn_creator_pk row0 = dn_creator_pk d"
    by (simp add: row0_def)
  ultimately show ?thesis
    by (auto split: if_splits)
qed

lemma insert_datanodes_result:
  "insert_datanodes ds db = Inr db' \<Longrightarrow>
     \<exists>rows. db' = db\<lparr>data_table := data_table db @ rows\<rparr> \<and>
       map dn_creator_pk rows = map dn_creator_pk ds"
proof (induction ds arbitrary: db)
  case Nil
  then show ?case by simp
next
  case (Cons d ds)
  from Cons.prems obtain row db1 where
    one: "insert_datanode d db = Inr (row, db1)" and rest: "insert_datanodes ds db1 = Inr db'"
    by (auto split: sum.splits)
  from insert_datanode_result [OF one] have
    db1: "db1 = db\<lparr>data_table := data_table db @ [row]\<rparr>" and
    row: "dn_creator_pk row = dn_creator_pk d"
    by simp_all
  from Cons.IH [OF rest] obtain rows where
    rows: "db' = db1\<lparr>data_table := data_table db1 @ rows\<rparr>"
      "map dn_creator_pk rows = map dn_creator_pk ds"
    by blast
  have "db' = db\<lparr>data_table := data_table db @ (row # rows)\<rparr>"
    using rows(1) db1 by simp
  moreover have "map dn_creator_pk (row # rows) = map dn_creator_pk (d # ds)"
    using rows(2) row by simp
  ultimately show ?case by blast
qed

lemma insert_calcjob_result:
  assumes "insert_calcjob u c status outputs db = Inr (row, db')"
  shows "\<exists>sts outs.
     db' = db\<lparr>calcjob_table := calcjob_table db @ [row],
               calcjob_status_table := calcjob_status_table db @ sts,
               data_table := data_table db @ outs\<rparr> \<and>
     cj_pk row = Some (assign_pk (cj_pk c) (map cj_pk (calcjob_table db))) \<and>
     cj_pk row \<notin> set (map cj_pk (calcjob_table db)) \<and>
     length sts = (case status of None \<Rightarrow> 0 | Some _ \<Rightarrow> 1) \<and>
     (\<forall>p \<in> set sts. Some (pr_calcjob_pk p) = cj_pk row) \<and>
     length outs = length outputs \<and>
     (\<forall>d \<in> set outs. Some (dn_creator_pk d) = cj_pk row)"
proof -
  define k where "k = assign_pk (cj_pk c) (map cj_pk (calcjob_table db))"
  define row0 where "row0 = c\<lparr>cj_pk := Some k,
                   cj_label := default [] (cj_label c),
                   cj_uuid := default u (cj_uuid c),
                   cj_parameters := default [] (cj_parameters c),
                   cj_upload := default [] (cj_upload c),
                   cj_download_globs := default [] (cj_download_globs c)\<rparr>"
  define db1 where "db1 = db\<lparr>calcjob_table := calcjob_table db @ [row0]\<rparr>"
  define st where "st = (case status of
                       None \<Rightarrow> Inr db1
                     | Some p \<Rightarrow>
                         (case insert_processing (p\<lparr>pr_calcjob_pk := k\<rparr>) db1 of
                            Inl e \<Rightarrow> Inl e
                          | Inr (_, db2) \<Rightarrow> Inr db2))"
  have pk0: "cj_pk row0 = Some k"
    by (simp add: row0_def)
  from assms have eq:
    "(if cj_pk row0 \<in> set (map cj_pk (calcjob_table db))
         then Inl (IntegrityError (PrimaryKey ''calcjob.pk''))
         else if Some (cj_code_pk row0) \<notin> set (map co_pk (code_table db))
         then Inl (IntegrityError (ForeignKey ''calcjob.code_pk''))
         else
           (case st of
                 Inl e \<Rightarrow> Inl e
               | Inr db2 \<Rightarrow>
                   (case insert_datanodes (map (\<lambda>d. d\<lparr>dn_creator_pk := k\<rparr>) outputs) db2 of
                      Inl e \<Rightarrow> Inl e
                    | Inr db3 \<Rightarrow> Inr (row0, db3)))) = Inr (row, db')"
    unfolding insert_calcjob_def row0_def Let_def db1_def st_def k_def by simp
  then have fresh: "cj_pk row0 \<notin> set (map cj_pk (calcjob_table db))"
    by (auto split: if_splits)
  from eq fresh have eq2:
    "(case st of
        Inl e \<Rightarrow> Inl e
      | Inr db2 \<Rightarrow>
          (case insert_datanodes (map (\<lambda>d. d\<lparr>dn_creator_pk := k\<rparr>) outputs) db2 of
             Inl e \<Rightarrow> Inl e
           | Inr db3 \<Rightarrow> Inr (row0, db3))) = Inr (row, db')"
    by (simp split: if_splits)
  then obtain db2 where st2: "st = Inr db2"
    by (cases st) simp_all
  with eq2 have eq3:
    "(case insert_datanodes (map (\<lambda>d. d\<lparr>dn_creator_pk := k\<rparr>) outputs) db2 of
        Inl e \<Rightarrow> Inl e
      | Inr db3 \<Rightarrow> Inr (row0, db3)) = Inr (row, db')"
    by simp
  then have out: "insert_datanodes (map (\<lambda>d. d\<lparr>dn_creator_pk := k\<rparr>) outputs) db2 = Inr db'"
    and row: "row = row0"
    by (cases "insert_datanodes (map (\<lambda>d. d\<lparr>dn_creator_pk := k\<rparr>) outputs) db2"; simp)+
  have "\<exists>sts. db2 = db1\<lparr>calcjob_status_table := calcjob_status_table db1 @ sts\<rparr> \<and>
      length sts = (case status of None \<Rightarrow> 0 | Some _ \<Rightarrow> 1) \<and>
      (\<forall>p \<in> set sts. pr_calcjob_pk p = k)"
  proof (cases status)
    case None
    with st2 have "db2 = db1" by (simp add: st_def)
    then have "db2 = db1\<lparr>calcjob_status_table := calcjob_status_table db1 @ []\<rparr>" by simp
    with None show ?thesis by auto
  next
    case (Some p)
    with st2 obtain prow where "insert_processing (p\<lparr>pr_calcjob_pk := k\<rparr>) db1 = Inr (prow, db2)"
      by (auto simp: st_def split: sum.splits)
    from insert_processing_result [OF this]
    have "db2 = db1\<lparr>calcjob_status_table := calcjob_status_table db1 @ [prow]\<rparr>"
      "pr_calcjob_pk prow = k"
      by simp_all
    with Some show ?thesis by auto
  qed
  then obtain sts where sts: "db2 = db1\<lparr>calcjob_status_table := calcjob_status_table db1 @ sts\<rparr>"
      "length sts = (case status of None \<Rightarrow> 0 | Some _ \<Rightarrow> 1)"
      "\<forall>p \<in> set sts. pr_calcjob_pk p = k"
    by blast
  from insert_datanodes_result [OF out] obtain outs where
    outs: "db' = db2\<lparr>data_table := data_table db2 @ outs\<rparr>"
      "map dn_creator_pk outs = map dn_creator_pk (map (\<lambda>d. d\<lparr>dn_creator_pk := k\<rparr>) outputs)"
    by blast
  from outs(2) have "length (map dn_creator_pk outs)
      = length (map dn_creator_pk (map (\<lambda>d. d\<lparr>dn_creator_pk := k\<rparr>) outputs))"
    by (simp only:)
  then have len: "length outs = length outputs"
    by simp
  from outs(2) have "set (map dn_creator_pk outs)
      = set (map dn_creator_pk (map (\<lambda>d. d\<lparr>dn_creator_pk := k\<rparr>) outputs))"
    by (simp only:)
  also have "\<dots> \<subseteq> {k}"
    by auto
  finally have creators: "\<forall>d \<in> set outs. dn_creator_pk d = k"
    by auto
  have "db' = db\<lparr>calcjob_table := calcjob_table db @ [row],
               calcjob_status_table := calcjob_status_table db @ sts,
               data_table := data_table db @ outs\<rparr>"
    using outs(1) sts(1) row by (simp add: db1_def)
  with fresh pk0 sts(2,3) len creators row show ?thesis
    unfolding k_def [symmetric] by auto
qed

subsection \<open>Keys and labels stay unique\<close>

lemma keys_ok_tables:
  "client_table db' = client_table db \<Longrightarrow> code_table db' = code_table db \<Longrightarrow>
     keys_ok db' = keys_ok db"
  by (simp add: keys_ok_def)


lemma add_client_keys_ok:
  assumes "keys_ok db"
  shows "keys_ok (snd (add_client r c db))"
proof (cases "insert_client r c db")
  case (Inl e)
  with assms show ?thesis by (simp add: add_client_def flush_def)
next
  case (Inr res)
  then obtain row db' where res: "insert_client r c db = Inr (row, db')"
    by (cases res) simp
  from insert_client_result [OF res] assms have "keys_ok db'"
    by (simp add: keys_ok_def)
  with res show ?thesis by (simp add: add_client_def flush_def)
qed


lemma add_code_keys_ok:
  assumes "keys_ok db"
  shows "keys_ok (snd (add_code r c db))"
proof (cases "insert_code r c db")
  case (Inl e)
  with assms show ?thesis by (simp add: add_code_def flush_def)
next
  case (Inr res)
  then obtain row db' where res: "insert_code r c db = Inr (row, db')"
    by (cases res) simp
  from insert_code_result [OF res] assms have "keys_ok db'"
    by (simp add: keys_ok_def)
  with res show ?thesis by (simp add: add_code_def flush_def)
qed


lemma insert_calcjob_tables:
  assumes "insert_calcjob u c st outs db = Inr (row, db')"
  shows "client_table db' = client_table db \<and> code_table db' = code_table db \<and>
    calcjob_table db' = calcjob_table db @ [row]"
  using insert_calcjob_result [OF assms]
  apply (elim exE conjE)
  apply (erule ssubst)
  apply simp
  done

lemma add_calcjob_keys_ok:
  assumes "keys_ok db"
  shows "keys_ok (snd (add_calcjob u c st outs db))"
proof (cases "insert_calcjob u c st outs db")
  case (Inl e)
  with assms show ?thesis by (simp add: add_calcjob_def flush_def)
next
  case (Inr res)
  then obtain row db' where res: "insert_calcjob u c st outs db = Inr (row, db')"
    by (cases res) simp
  from insert_calcjob_tables [OF res] have
    "client_table db' = client_table db" "code_table db' = code_table db"
    by simp_all
  with assms keys_ok_tables [of db' db] have "keys_ok db'" by simp
  with res show ?thesis by (simp add: add_calcjob_def flush_def)
qed


lemma add_processing_keys_ok:
  assumes "keys_ok db"
  shows "keys_ok (snd (add_processing p db))"
proof (cases "insert_processing p db")
  case (Inl e)
  with assms show ?thesis by (simp add: add_processing_def flush_def)
next
  case (Inr res)
  then obtain row db' where res: "insert_processing p db = Inr (row, db')"
    by (cases res) simp
  from insert_processing_result [OF res] assms have "keys_ok db'"
    by (simp add: keys_ok_def)
  with res show ?thesis by (simp add: add_processing_def flush_def)
qed


lemma add_datanode_keys_ok:
  assumes "keys_ok db"
  shows "keys_ok (snd (add_datanode d db))"
proof (cases "insert_datanode d db")
  case (Inl e)
  with assms show ?thesis by (simp add: add_datanode_def flush_def)
next
  case (Inr res)
  then obtain row db' where res: "insert_datanode d db = Inr (row, db')"
    by (cases res) simp
  from insert_datanode_result [OF res] assms have "keys_ok db'"
    by (simp add: keys_ok_def)
  with res show ?thesis by (simp add: add_datanode_def flush_def)
qed

lemma delete_calcjob_result:
  assumes "delete_calcjob k db = (Inr u, db')"
  shows "db' = db\<lparr>calcjob_table := filter (\<lambda>c. cj_pk c \<noteq> Some k) (calcjob_table db),
              calcjob_status_table :=
                remove_first (\<lambda>p. pr_calcjob_pk p = k) (calcjob_status_table db),
              data_table := filter (\<lambda>d. dn_creator_pk d \<noteq> k) (data_table db)\<rparr> \<and>
     Some k \<in> set (map cj_pk (calcjob_table db)) \<and>
     k \<notin> set (map pr_calcjob_pk
              (remove_first (\<lambda>p. pr_calcjob_pk p = k) (calcjob_status_table db)))"
proof (cases "Some k \<notin> set (map cj_pk (calcjob_table db))")
  case True
  with assms show ?thesis
    unfolding delete_calcjob_def by simp
next
  case False
  show ?thesis
  proof (cases "k \<in> set (map pr_calcjob_pk
      (remove_first (\<lambda>p. pr_calcjob_pk p = k) (calcjob_status_table db)))")
    case True
    with False assms show ?thesis
      unfolding delete_calcjob_def Let_def by simp
  next
    case no_ref: False
    with False assms have "db\<lparr>calcjob_table := filter (\<lambda>c. cj_pk c \<noteq> Some k) (calcjob_table db),
              calcjob_status_table :=
                remove_first (\<lambda>p. pr_calcjob_pk p = k) (calcjob_status_table db),
              data_table := filter (\<lambda>d. dn_creator_pk d \<noteq> k) (data_table db)\<rparr> = db'"
      unfolding delete_calcjob_def Let_def by simp
    with False no_ref show ?thesis by simp
  qed
qed

lemma delete_calcjob_error:
  "delete_calcjob k db = (Inl e, db') \<Longrightarrow> db' = db"
  unfolding delete_calcjob_def Let_def by (simp split: if_splits)

lemma delete_calcjob_keys_ok:
  assumes "keys_ok db"
  shows "keys_ok (snd (delete_calcjob k db))"
proof (cases "delete_calcjob k db")
  case (Pair res db')
  show ?thesis
  proof (cases res)
    case (Inl e)
    with Pair delete_calcjob_error have "db' = db" by blast
    with Pair assms show ?thesis by simp
  next
    case (Inr u)
    with Pair delete_calcjob_result [of k db u db'] have
      "client_table db' = client_table db" "code_table db' = code_table db"
      by simp_all
    with assms Pair keys_ok_tables [of db' db] show ?thesis by simp
  qed
qed

lemma set_client_label_keys_ok:
  assumes "keys_ok db"
  shows "keys_ok (snd (set_client_label k l db))"
proof (cases "Some k \<in> set (map cl_pk (client_table db)) \<and>
    Some l \<notin> set (map cl_label (filter (\<lambda>c. cl_pk c \<noteq> Some k) (client_table db)))")
  case False
  with assms show ?thesis by (auto simp: set_client_label_def)
next
  case True
  let ?upd = "\<lambda>c::client. c\<lparr>cl_label := Some l\<rparr>"
  let ?new = "map (\<lambda>c. if cl_pk c = Some k then ?upd c else c) (client_table db)"
  from True have res: "snd (set_client_label k l db) = db\<lparr>client_table := ?new\<rparr>"
    by (simp add: set_client_label_def)
  have labels: "distinct (map (\<lambda>c. cl_label (if cl_pk c = Some k then ?upd c else c)) (client_table db))"
  proof (rule distinct_map_update)
    show "distinct (map cl_pk (client_table db))" "distinct (map cl_label (client_table db))"
      using assms by (simp_all add: keys_ok_def)
    show "\<forall>x \<in> set (client_table db). cl_pk x \<noteq> Some k \<longrightarrow> cl_label x \<noteq> Some l"
    proof (intro ballI impI notI)
      fix x assume "x \<in> set (client_table db)" "cl_pk x \<noteq> Some k" "cl_label x = Some l"
      then have "Some l \<in> cl_label ` set (filter (\<lambda>c. cl_pk c \<noteq> Some k) (client_table db))"
        by (intro image_eqI [where x = x]) simp_all
      with True show False by simp
    qed
    show "\<forall>x \<in> set (client_table db). cl_pk x = Some k \<longrightarrow> cl_label (?upd x) = Some l"
      by simp
  qed
  have pks: "map (\<lambda>c. cl_pk (if cl_pk c = Some k then ?upd c else c)) (client_table db)
      = map cl_pk (client_table db)"
    by (rule key_update_same) simp
  show ?thesis
    using assms by (simp add: res keys_ok_def comp_def labels pks)
qed

lemma set_code_label_keys_ok:
  assumes "keys_ok db"
  shows "keys_ok (snd (set_code_label k l db))"
proof (cases "find (\<lambda>c. co_pk c = Some k) (code_table db)")
  case None
  with assms show ?thesis by (simp add: set_code_label_def)
next
  case (Some old)
  let ?attr = "\<lambda>x. (co_client_pk x, co_label x)"
  let ?others = "filter (\<lambda>c. co_pk c \<noteq> Some k) (code_table db)"
  show ?thesis
  proof (cases "(co_client_pk old, Some l) \<in> set (map ?attr ?others)")
    case True
    with Some assms show ?thesis by (simp add: set_code_label_def)
  next
    case False
    let ?upd = "\<lambda>c::code. c\<lparr>co_label := Some l\<rparr>"
    let ?new = "map (\<lambda>c. if co_pk c = Some k then ?upd c else c) (code_table db)"
    from Some False have res: "snd (set_code_label k l db) = db\<lparr>code_table := ?new\<rparr>"
      by (simp add: set_code_label_def)
    from Some have old: "old \<in> set (code_table db)" "co_pk old = Some k"
      by (auto simp: find_Some_iff)
    have pks: "distinct (map co_pk (code_table db))"
      using assms by (simp add: keys_ok_def)
    then have inj: "inj_on co_pk (set (code_table db))"
      by (simp add: distinct_map)
    have labels: "distinct (map (\<lambda>c. ?attr (if co_pk c = Some k then ?upd c else c)) (code_table db))"
    proof (rule distinct_map_update [where a = "(co_client_pk old, Some l)"])
      show "distinct (map co_pk (code_table db))" by (rule pks)
      show "distinct (map ?attr (code_table db))"
        using assms by (simp add: keys_ok_def)
      show "\<forall>x \<in> set (code_table db). co_pk x \<noteq> Some k \<longrightarrow> ?attr x \<noteq> (co_client_pk old, Some l)"
      proof (intro ballI impI notI)
        fix x assume "x \<in> set (code_table db)" "co_pk x \<noteq> Some k"
          "?attr x = (co_client_pk old, Some l)"
        then have "(co_client_pk old, Some l) \<in> ?attr ` set ?others"
          by (intro image_eqI [where x = x]) simp_all
        with False show False by simp
      qed
      show "\<forall>x \<in> set (code_table db). co_pk x = Some k \<longrightarrow> ?attr (?upd x) = (co_client_pk old, Some l)"
      proof (intro ballI impI)
        fix x assume x: "x \<in> set (code_table db)" "co_pk x = Some k"
        with old have "co_pk x = co_pk old" by simp
        with inj have "x = old" using x(1) old(1) by (rule inj_onD)
        then show "?attr (?upd x) = (co_client_pk old, Some l)" by simp
      qed
    qed
    have same_pks: "map (\<lambda>c. co_pk (if co_pk c = Some k then ?upd c else c)) (code_table db)
        = map co_pk (code_table db)"
      by (rule key_update_same) simp
    show ?thesis
      using assms by (simp add: res keys_ok_def comp_def labels same_pks)
  qed
qed

lemma apply_operation_keys_ok: "keys_ok db \<Longrightarrow> keys_ok (apply_operation op db)"
  by (cases op)
    (simp_all add: add_client_keys_ok add_code_keys_ok add_calcjob_keys_ok
      add_processing_keys_ok add_datanode_keys_ok delete_calcjob_keys_ok
      set_client_label_keys_ok set_code_label_keys_ok)

lemma run_keys_ok: "keys_ok db \<Longrightarrow> keys_ok (run ops db)"
  unfolding run_def
  by (induction ops arbitrary: db) (simp_all add: apply_operation_keys_ok)

lemma keys_ok_empty: "keys_ok empty_db"
  by (simp add: keys_ok_def empty_db_def)

subsection \<open>Duplicate labels\<close>


lemma insert_client_duplicate:
  assumes "default_label r (cl_label c) = Inr l"
    and "Some l \<in> set (map cl_label (client_table db))"
  shows "insert_client r c db =
     (if Some (assign_pk (cl_pk c) (map cl_pk (client_table db))) \<in> set (map cl_pk (client_table db))
      then Inl (IntegrityError (PrimaryKey ''client.pk''))
      else Inl (IntegrityError (Unique ''client.label'')))"
  using assms by (simp add: insert_client_def Let_def)

lemma insert_code_duplicate:
  assumes "default_label r (co_label c) = Inr l"
    and "(co_client_pk c, Some l) \<in> set (map (\<lambda>x. (co_client_pk x, co_label x)) (code_table db))"
  shows "insert_code r c db =
     (if Some (assign_pk (co_pk c) (map co_pk (code_table db))) \<in> set (map co_pk (code_table db))
      then Inl (IntegrityError (PrimaryKey ''code.pk''))
      else if Some (co_client_pk c) \<notin> set (map cl_pk (client_table db))
      then Inl (IntegrityError (ForeignKey ''code.client_pk''))
      else Inl (IntegrityError (Unique ''code.client_pk, code.label'')))"
  using assms by (simp add: insert_code_def Let_def)

text \<open>
  C4: creating a \<open>Client\<close> whose label (given, or drawn as the default) is the
  label of a stored \<open>Client\<close> raises \<open>IntegrityError\<close>, the error of a violated
  uniqueness constraint that the spec calls \<open>DuplicateLabel\<close>, and leaves the store
  as it was; when the key is left to the database, the constraint reported is the one
  on \<open>client.label\<close>. The same holds for a \<open>Code\<close> whose label is the label of a
  stored \<open>Code\<close> of the same \<open>Client\<close>, with the constraint on
  \<open>(client_pk, label)\<close>. Consequently, in every store reached from the empty one
  by any sequence of writes, the labels of the stored \<open>Client\<close>s are pairwise
  distinct, and so are the pairs of owner and label of the stored \<open>Code\<close>s.
\<close>

theorem duplicate_label_rejected:
  "(default_label r (cl_label c) = Inr l \<and> Some l \<in> set (map cl_label (client_table db))
      \<longrightarrow> (\<exists>k. add_client r c db = (Inl (IntegrityError k), db)) \<and>
          (cl_pk c = None
             \<longrightarrow> add_client r c db = (Inl (IntegrityError (Unique ''client.label'')), db))) \<and>
   (default_label r (co_label d) = Inr l \<and>
    (co_client_pk d, Some l) \<in> set (map (\<lambda>x. (co_client_pk x, co_label x)) (code_table db))
      \<longrightarrow> (\<exists>k. add_code r d db = (Inl (IntegrityError k), db)) \<and>
          (co_pk d = None \<and> Some (co_client_pk d) \<in> set (map cl_pk (client_table db))
             \<longrightarrow> add_code r d db
                   = (Inl (IntegrityError (Unique ''code.client_pk, code.label'')), db))) \<and>
   distinct (map cl_label (client_table (run ops empty_db))) \<and>
   distinct (map (\<lambda>x. (co_client_pk x, co_label x)) (code_table (run ops empty_db)))"
proof (intro conjI impI)
  assume a: "default_label r (cl_label c) = Inr l \<and> Some l \<in> set (map cl_label (client_table db))"
  then have dup: "insert_client r c db =
     (if Some (assign_pk (cl_pk c) (map cl_pk (client_table db))) \<in> set (map cl_pk (client_table db))
      then Inl (IntegrityError (PrimaryKey ''client.pk''))
      else Inl (IntegrityError (Unique ''client.label'')))"
    by (simp add: insert_client_duplicate)
  then show "\<exists>k. add_client r c db = (Inl (IntegrityError k), db)"
    by (simp add: add_client_def flush_def)
  assume "cl_pk c = None"
  with dup assign_pk_unset_fresh [of "map cl_pk (client_table db)"]
  show "add_client r c db = (Inl (IntegrityError (Unique ''client.label'')), db)"
    by (simp add: add_client_def flush_def)
next
  assume a: "default_label r (co_label d) = Inr l \<and>
    (co_client_pk d, Some l) \<in> set (map (\<lambda>x. (co_client_pk x, co_label x)) (code_table db))"
  then have dup: "insert_code r d db =
     (if Some (assign_pk (co_pk d) (map co_pk (code_table db))) \<in> set (map co_pk (code_table db))
      then Inl (IntegrityError (PrimaryKey ''code.pk''))
      else if Some (co_client_pk d) \<notin> set (map cl_pk (client_table db))
      then Inl (IntegrityError (ForeignKey ''code.client_pk''))
      else Inl (IntegrityError (Unique ''code.client_pk, code.label'')))"
    by (simp add: insert_code_duplicate)
  then show "\<exists>k. add_code r d db = (Inl (IntegrityError k), db)"
    by (simp add: add_code_def flush_def)
  assume "co_pk d = None \<and> Some (co_client_pk d) \<in> set (map cl_pk (client_table db))"
  with dup assign_pk_unset_fresh [of "map co_pk (code_table db)"]
  show "add_code r d db
      = (Inl (IntegrityError (Unique ''code.client_pk, code.label'')), db)"
    by (simp add: add_code_def flush_def)
next
  have "keys_ok (run ops empty_db)"
    by (simp add: run_keys_ok keys_ok_empty)
  then show "distinct (map cl_label (client_table (run ops empty_db)))"
    and "distinct (map (\<lambda>x. (co_client_pk x, co_label x)) (code_table (run ops empty_db)))"
    by (simp_all add: keys_ok_def)
qed

theorem duplicate_label_rejected_witness:
  "add_client 0 (new_client\<lparr>cl_label := Some ''alpha''\<rparr>) example_db
     = (Inl (IntegrityError (Unique ''client.label'')), example_db) \<and>
   add_code 0 (new_code\<lparr>co_label := Some ''alpha''\<rparr>) example_db
     = (Inl (IntegrityError (Unique ''code.client_pk, code.label'')), example_db) \<and>
   distinct (map cl_label (client_table
     (run [AddClient 0 new_client, AddClient 0 new_client] empty_db)))"
proof -
  have c: "default_label 0 (cl_label (new_client\<lparr>cl_label := Some ''alpha''\<rparr>)) = Inr ''alpha''"
    "Some ''alpha'' \<in> set (map cl_label (client_table example_db))"
    "cl_pk (new_client\<lparr>cl_label := Some ''alpha''\<rparr>) = None"
    by (simp_all add: default_label_def new_client_def example_db_def example_client_def)
  have d: "default_label 0 (co_label (new_code\<lparr>co_label := Some ''alpha''\<rparr>)) = Inr ''alpha''"
    "(co_client_pk (new_code\<lparr>co_label := Some ''alpha''\<rparr>), Some ''alpha'')
       \<in> set (map (\<lambda>x. (co_client_pk x, co_label x)) (code_table example_db))"
    "co_pk (new_code\<lparr>co_label := Some ''alpha''\<rparr>) = None"
    "Some (co_client_pk (new_code\<lparr>co_label := Some ''alpha''\<rparr>))
       \<in> set (map cl_pk (client_table example_db))"
    by (simp_all add: default_label_def new_code_def example_db_def example_code_def
        example_client_def)
  from duplicate_label_rejected [of 0 "new_client\<lparr>cl_label := Some ''alpha''\<rparr>" "''alpha''"
      example_db "new_code\<lparr>co_label := Some ''alpha''\<rparr>"
      "[AddClient 0 new_client, AddClient 0 new_client]"] c d
  show ?thesis by blast
qed

subsection \<open>Deleting a \<open>CalcJob\<close>\<close>

lemma filter_remove_first: "filter P (remove_first P xs) = tl (filter P xs)"
  by (induction xs) auto

lemma filter_remove_first_other:
  "\<forall>x. Q x \<longrightarrow> \<not> P x \<Longrightarrow> filter Q (remove_first P xs) = filter Q xs"
  by (induction xs) auto

lemma filter_filter_implied:
  "(\<And>x. P x \<Longrightarrow> Q x) \<Longrightarrow> filter P (filter Q xs) = filter P xs"
  by (induction xs) auto

lemma remove_first_clean:
  assumes "length (filter P xs) \<le> 1"
  shows "\<forall>x \<in> set (remove_first P xs). \<not> P x"
proof -
  from assms have "tl (filter P xs) = []"
    by (cases "filter P xs") auto
  then have "filter P (remove_first P xs) = []"
    by (simp add: filter_remove_first)
  then show ?thesis
    by (simp add: filter_empty_conv)
qed

lemma delete_calcjob_tables:
  assumes "delete_calcjob k db = (Inr u, db')"
  shows "calcjob_table db' = filter (\<lambda>c. cj_pk c \<noteq> Some k) (calcjob_table db)"
    and "calcjob_status_table db' = filter (\<lambda>p. pr_calcjob_pk p \<noteq> k) (calcjob_status_table db)"
    and "data_table db' = filter (\<lambda>d. dn_creator_pk d \<noteq> k) (data_table db)"
    and "client_table db' = client_table db"
    and "code_table db' = code_table db"
proof -
  note res = delete_calcjob_result [OF assms]
  from res have "\<forall>p \<in> set (remove_first (\<lambda>p. pr_calcjob_pk p = k) (calcjob_status_table db)).
      \<not> pr_calcjob_pk p = k"
    by auto
  then have "remove_first (\<lambda>p. pr_calcjob_pk p = k) (calcjob_status_table db)
      = filter (\<lambda>p. \<not> pr_calcjob_pk p = k) (calcjob_status_table db)"
    by (rule remove_first_filter)
  with res show
    "calcjob_status_table db' = filter (\<lambda>p. pr_calcjob_pk p \<noteq> k) (calcjob_status_table db)"
    by simp
  from res show "calcjob_table db' = filter (\<lambda>c. cj_pk c \<noteq> Some k) (calcjob_table db)"
    and "data_table db' = filter (\<lambda>d. dn_creator_pk d \<noteq> k) (data_table db)"
    and "client_table db' = client_table db"
    and "code_table db' = code_table db"
    by simp_all
qed

lemma delete_calcjob_succeeds:
  assumes "Some k \<in> set (map cj_pk (calcjob_table db))"
    and "length (statuses_of k db) \<le> 1"
  shows "\<exists>db'. delete_calcjob k db = (Inr (), db')"
proof -
  from assms(2) have
    "\<forall>p \<in> set (remove_first (\<lambda>p. pr_calcjob_pk p = k) (calcjob_status_table db)).
       \<not> pr_calcjob_pk p = k"
    unfolding statuses_of_def by (rule remove_first_clean)
  then have "k \<notin> set (map pr_calcjob_pk
      (remove_first (\<lambda>p. pr_calcjob_pk p = k) (calcjob_status_table db)))"
    by auto
  with assms(1) show ?thesis
    unfolding delete_calcjob_def Let_def by simp
qed

text \<open>
  C6, as stated, has the delete of every Job Invocation delete its Execution Status
  and its Output Artifacts. The store \<open>example_db_two_statuses\<close> is reached from
  the empty one by five writes; two \<open>Processing\<close> rows refer to its \<open>CalcJob\<close> 1.
  The delete of that \<open>CalcJob\<close> removes the one \<open>Processing\<close> that the scalar
  relationship \<open>status\<close> loads, the foreign key of the other one refuses the delete
  of the \<open>CalcJob\<close> row, and nothing is deleted.
\<close>

theorem delete_calcjob_refused_counterexample:
  "example_db_two_statuses
     = run [AddClient 0 example_client, AddCode 0 example_code,
            AddCalcJob ''abc-123'' new_calcjob None [],
            AddProcessing new_processing, AddProcessing new_processing] empty_db \<and>
   Some 1 \<in> set (map cj_pk (calcjob_table example_db_two_statuses)) \<and>
   length (statuses_of 1 example_db_two_statuses) = 2 \<and>
   delete_calcjob 1 example_db_two_statuses
     = (Inl (IntegrityError (ForeignKey ''calcjob_status.calcjob_pk'')),
        example_db_two_statuses)"
  by code_simp

text \<open>
  C6 (amended): when deleting the \<open>CalcJob\<close> with key \<open>k\<close> succeeds, the tables
  afterwards are the tables before without the row of that \<open>CalcJob\<close>, without the
  \<open>Processing\<close> rows and without the \<open>DataNode\<close> rows that refer to it; nothing
  that refers to it is left, and for every other key the \<open>Processing\<close> and
  \<open>DataNode\<close> rows are the same rows as before, as are the tables of \<open>Client\<close>
  and \<open>Code\<close>. A delete that raises changes nothing. The delete succeeds whenever
  the \<open>CalcJob\<close> is stored and at most one \<open>Processing\<close> refers to it.
\<close>

theorem delete_calcjob_frame:
  "(delete_calcjob k db = (Inr u, db') \<longrightarrow>
      calcjob_table db' = filter (\<lambda>c. cj_pk c \<noteq> Some k) (calcjob_table db) \<and>
      calcjob_status_table db'
        = filter (\<lambda>p. pr_calcjob_pk p \<noteq> k) (calcjob_status_table db) \<and>
      data_table db' = filter (\<lambda>d. dn_creator_pk d \<noteq> k) (data_table db) \<and>
      client_table db' = client_table db \<and>
      code_table db' = code_table db \<and>
      statuses_of k db' = [] \<and>
      outputs_of k db' = [] \<and>
      (\<forall>j. j \<noteq> k \<longrightarrow>
         statuses_of j db' = statuses_of j db \<and> outputs_of j db' = outputs_of j db)) \<and>
   (delete_calcjob k db = (Inl e, db') \<longrightarrow> db' = db) \<and>
   (Some k \<in> set (map cj_pk (calcjob_table db)) \<and> length (statuses_of k db) \<le> 1
      \<longrightarrow> (\<exists>db'. delete_calcjob k db = (Inr (), db')))"
proof (intro conjI impI)
  assume ok: "delete_calcjob k db = (Inr u, db')"
  note t = delete_calcjob_tables [OF ok]
  from t show "calcjob_table db' = filter (\<lambda>c. cj_pk c \<noteq> Some k) (calcjob_table db)"
    and "calcjob_status_table db'
        = filter (\<lambda>p. pr_calcjob_pk p \<noteq> k) (calcjob_status_table db)"
    and "data_table db' = filter (\<lambda>d. dn_creator_pk d \<noteq> k) (data_table db)"
    and "client_table db' = client_table db"
    and "code_table db' = code_table db"
    by simp_all
  from t show "statuses_of k db' = []" "outputs_of k db' = []"
    by (simp_all add: statuses_of_def outputs_of_def)
  show "\<forall>j. j \<noteq> k \<longrightarrow>
         statuses_of j db' = statuses_of j db \<and> outputs_of j db' = outputs_of j db"
  proof (intro allI impI conjI)
    fix j assume "j \<noteq> k"
    with t show "statuses_of j db' = statuses_of j db" "outputs_of j db' = outputs_of j db"
      by (auto simp: statuses_of_def outputs_of_def intro!: filter_cong)
  qed
next
  assume "delete_calcjob k db = (Inl e, db')"
  then show "db' = db" by (rule delete_calcjob_error)
next
  assume "Some k \<in> set (map cj_pk (calcjob_table db)) \<and> length (statuses_of k db) \<le> 1"
  then show "\<exists>db'. delete_calcjob k db = (Inr (), db')"
    by (simp add: delete_calcjob_succeeds)
qed

theorem delete_calcjob_frame_witness:
  "delete_calcjob 1 example_db_full = (Inr (), example_db_deleted) \<and>
   length (statuses_of 1 example_db_full) = 1 \<and>
   length (outputs_of 1 example_db_full) = 2 \<and>
   statuses_of 1 example_db_deleted = [] \<and>
   outputs_of 1 example_db_deleted = [] \<and>
   length (statuses_of 2 example_db_full) = 1 \<and>
   statuses_of 2 example_db_deleted = statuses_of 2 example_db_full \<and>
   outputs_of 2 example_db_deleted = outputs_of 2 example_db_full"
proof -
  have run: "delete_calcjob 1 example_db_full = (Inr (), example_db_deleted)"
    by code_simp
  have before: "length (statuses_of 1 example_db_full) = 1"
    "length (outputs_of 1 example_db_full) = 2"
    "length (statuses_of 2 example_db_full) = 1"
    by code_simp+
  from delete_calcjob_frame [of 1 example_db_full "()" example_db_deleted] run
  have "statuses_of 1 example_db_deleted = []" "outputs_of 1 example_db_deleted = []"
    "statuses_of 2 example_db_deleted = statuses_of 2 example_db_full"
    "outputs_of 2 example_db_deleted = outputs_of 2 example_db_full"
    by simp_all
  with run before show ?thesis by simp
qed

subsection \<open>The \<open>Processing\<close> of a \<open>CalcJob\<close>\<close>

lemma status_fk_ok_iff:
  "status_fk_ok db \<longleftrightarrow>
     (\<forall>p \<in> set (calcjob_status_table db). Some (pr_calcjob_pk p) \<in> cj_pk ` set (calcjob_table db))"
  by (simp add: status_fk_ok_def list_all_iff)

lemma status_fk_ok_tables:
  "calcjob_table db' = calcjob_table db \<Longrightarrow>
   calcjob_status_table db' = calcjob_status_table db \<Longrightarrow>
     status_fk_ok db' = status_fk_ok db"
  by (simp add: status_fk_ok_def)

lemma set_client_label_tables:
  "calcjob_table (snd (set_client_label k l db)) = calcjob_table db \<and>
   calcjob_status_table (snd (set_client_label k l db)) = calcjob_status_table db"
  by (simp add: set_client_label_def)

lemma set_code_label_tables:
  "calcjob_table (snd (set_code_label k l db)) = calcjob_table db \<and>
   calcjob_status_table (snd (set_code_label k l db)) = calcjob_status_table db"
  by (simp add: set_code_label_def split: option.splits)

lemma add_client_status_fk_ok:
  assumes "status_fk_ok db"
  shows "status_fk_ok (snd (add_client r c db))"
proof (cases "insert_client r c db")
  case (Inl e)
  with assms show ?thesis by (simp add: add_client_def flush_def)
next
  case (Inr res)
  then obtain row db' where res: "insert_client r c db = Inr (row, db')"
    by (cases res) simp
  from insert_client_result [OF res] assms have "status_fk_ok db'"
    by (simp add: status_fk_ok_def)
  with res show ?thesis by (simp add: add_client_def flush_def)
qed

lemma add_code_status_fk_ok:
  assumes "status_fk_ok db"
  shows "status_fk_ok (snd (add_code r c db))"
proof (cases "insert_code r c db")
  case (Inl e)
  with assms show ?thesis by (simp add: add_code_def flush_def)
next
  case (Inr res)
  then obtain row db' where res: "insert_code r c db = Inr (row, db')"
    by (cases res) simp
  from insert_code_result [OF res] assms have "status_fk_ok db'"
    by (simp add: status_fk_ok_def)
  with res show ?thesis by (simp add: add_code_def flush_def)
qed

lemma add_datanode_status_fk_ok:
  assumes "status_fk_ok db"
  shows "status_fk_ok (snd (add_datanode d db))"
proof (cases "insert_datanode d db")
  case (Inl e)
  with assms show ?thesis by (simp add: add_datanode_def flush_def)
next
  case (Inr res)
  then obtain row db' where res: "insert_datanode d db = Inr (row, db')"
    by (cases res) simp
  from insert_datanode_result [OF res] assms have "status_fk_ok db'"
    by (simp add: status_fk_ok_def)
  with res show ?thesis by (simp add: add_datanode_def flush_def)
qed

lemma add_processing_status_fk_ok:
  assumes "status_fk_ok db"
  shows "status_fk_ok (snd (add_processing p db))"
proof (cases "insert_processing p db")
  case (Inl e)
  with assms show ?thesis by (simp add: add_processing_def flush_def)
next
  case (Inr res)
  then obtain row db' where res: "insert_processing p db = Inr (row, db')"
    by (cases res) simp
  from insert_processing_result [OF res] assms have "status_fk_ok db'"
    by (simp add: status_fk_ok_def)
  with res show ?thesis by (simp add: add_processing_def flush_def)
qed

lemma insert_calcjob_status_fk_ok:
  assumes ok: "status_fk_ok db"
    and res: "insert_calcjob u c st outs db = Inr (row, db')"
  shows "status_fk_ok db'"
proof -
  from insert_calcjob_result [OF res] obtain sts os where
    db': "db' = db\<lparr>calcjob_table := calcjob_table db @ [row],
               calcjob_status_table := calcjob_status_table db @ sts,
               data_table := data_table db @ os\<rparr>"
    and refs: "\<forall>p \<in> set sts. Some (pr_calcjob_pk p) = cj_pk row"
    by (elim exE conjE)
  show ?thesis
    unfolding status_fk_ok_iff
  proof
    fix p assume "p \<in> set (calcjob_status_table db')"
    with db' have "p \<in> set (calcjob_status_table db) \<or> p \<in> set sts"
      by auto
    then have "Some (pr_calcjob_pk p) \<in> cj_pk ` set (calcjob_table db) \<or>
        Some (pr_calcjob_pk p) = cj_pk row"
      using ok refs by (auto simp: status_fk_ok_iff)
    with db' show "Some (pr_calcjob_pk p) \<in> cj_pk ` set (calcjob_table db')"
      by auto
  qed
qed

lemma add_calcjob_status_fk_ok:
  assumes "status_fk_ok db"
  shows "status_fk_ok (snd (add_calcjob u c st outs db))"
proof (cases "insert_calcjob u c st outs db")
  case (Inl e)
  with assms show ?thesis by (simp add: add_calcjob_def flush_def)
next
  case (Inr res)
  then obtain row db' where res: "insert_calcjob u c st outs db = Inr (row, db')"
    by (cases res) simp
  from insert_calcjob_status_fk_ok [OF assms res] res show ?thesis
    by (simp add: add_calcjob_def flush_def)
qed

lemma delete_calcjob_status_fk_ok:
  assumes "status_fk_ok db"
  shows "status_fk_ok (snd (delete_calcjob k db))"
proof (cases "delete_calcjob k db")
  case (Pair res db')
  show ?thesis
  proof (cases res)
    case (Inl e)
    with Pair delete_calcjob_error have "db' = db" by blast
    with Pair assms show ?thesis by simp
  next
    case (Inr u)
    with Pair have ok: "delete_calcjob k db = (Inr u, db')" by simp
    note t = delete_calcjob_tables [OF ok]
    have "status_fk_ok db'"
      unfolding status_fk_ok_iff
    proof
      fix p assume "p \<in> set (calcjob_status_table db')"
      with t(2) have p: "p \<in> set (calcjob_status_table db)" "pr_calcjob_pk p \<noteq> k"
        by auto
      with assms obtain c where c: "c \<in> set (calcjob_table db)" "cj_pk c = Some (pr_calcjob_pk p)"
        by (auto simp: status_fk_ok_iff)
      with p(2) have "c \<in> set (calcjob_table db')"
        by (simp add: t(1))
      with c(2) show "Some (pr_calcjob_pk p) \<in> cj_pk ` set (calcjob_table db')"
        by (metis image_eqI)
    qed
    with Pair show ?thesis by simp
  qed
qed

lemma apply_operation_status_fk_ok:
  assumes "status_fk_ok db"
  shows "status_fk_ok (apply_operation op db)"
proof (cases op)
  case (SetClientLabel k l)
  with assms set_client_label_tables [of k l db]
    status_fk_ok_tables [of "snd (set_client_label k l db)" db]
  show ?thesis by simp
next
  case (SetCodeLabel k l)
  with assms set_code_label_tables [of k l db]
    status_fk_ok_tables [of "snd (set_code_label k l db)" db]
  show ?thesis by simp
qed (simp_all add: assms add_client_status_fk_ok add_code_status_fk_ok
    add_calcjob_status_fk_ok add_processing_status_fk_ok add_datanode_status_fk_ok
    delete_calcjob_status_fk_ok)

lemma run_status_fk_ok: "status_fk_ok db \<Longrightarrow> status_fk_ok (run ops db)"
  unfolding run_def
  by (induction ops arbitrary: db) (simp_all add: apply_operation_status_fk_ok)

lemma status_fk_ok_empty: "status_fk_ok empty_db"
  by (simp add: status_fk_ok_def empty_db_def)

text \<open>
  C3, as stated, has exactly one \<open>Processing\<close> for every \<open>CalcJob\<close> at all times
  after its creation, and no second one ever attached. A \<open>CalcJob\<close> that is added
  without a \<open>Processing\<close> is stored with none, and \<open>calcjob_status.calcjob_pk\<close>
  carries no uniqueness constraint: two \<open>Processing\<close> rows added for the same
  \<open>CalcJob\<close> are both stored.
\<close>

theorem calcjob_status_counterexample:
  "Some 1 \<in> set (map cj_pk (calcjob_table example_db_calcjob)) \<and>
   statuses_of 1 example_db_calcjob = [] \<and>
   Some 1 \<in> set (map cj_pk (calcjob_table example_db_two_statuses)) \<and>
   length (statuses_of 1 example_db_two_statuses) = 2"
  by code_simp

text \<open>
  C3 (amended): a \<open>Processing\<close> that is attached to a \<open>CalcJob\<close> when the
  \<open>CalcJob\<close> is created is created together with it: in every store reached from
  the empty one, before the creation no \<open>Processing\<close> refers to the new key and
  after it exactly one does. A \<open>Processing\<close> is deleted together with its
  \<open>CalcJob\<close>: after a successful delete neither the \<open>CalcJob\<close> nor any
  \<open>Processing\<close> referring to it is stored. (A \<open>CalcJob\<close> may be created with no
  \<open>Processing\<close>; the store does not keep their number at one.)
\<close>

theorem status_created_and_deleted_with_calcjob:
  "(add_calcjob u c (Some p) outs (run ops empty_db) = (Inr row, db') \<longrightarrow>
      (\<exists>k. cj_pk row = Some k \<and> row \<in> set (calcjob_table db') \<and>
           statuses_of k (run ops empty_db) = [] \<and>
           length (statuses_of k db') = 1)) \<and>
   (delete_calcjob k db = (Inr v, db') \<longrightarrow>
      Some k \<notin> set (map cj_pk (calcjob_table db')) \<and> statuses_of k db' = [])"
proof (intro conjI impI)
  let ?db = "run ops empty_db"
  assume "add_calcjob u c (Some p) outs ?db = (Inr row, db')"
  then have res: "insert_calcjob u c (Some p) outs ?db = Inr (row, db')"
    by (simp add: add_calcjob_def flush_Inr)
  from insert_calcjob_result [OF res] obtain sts os where
    db': "db' = ?db\<lparr>calcjob_table := calcjob_table ?db @ [row],
               calcjob_status_table := calcjob_status_table ?db @ sts,
               data_table := data_table ?db @ os\<rparr>"
    and pk: "cj_pk row = Some (assign_pk (cj_pk c) (map cj_pk (calcjob_table ?db)))"
    and fresh: "cj_pk row \<notin> set (map cj_pk (calcjob_table ?db))"
    and len: "length sts = (case Some p of None \<Rightarrow> 0 | Some _ \<Rightarrow> 1)"
    and refs: "\<forall>p \<in> set sts. Some (pr_calcjob_pk p) = cj_pk row"
    by (elim exE conjE)
  define k where "k = assign_pk (cj_pk c) (map cj_pk (calcjob_table ?db))"
  have ok: "status_fk_ok ?db"
    by (simp add: run_status_fk_ok status_fk_ok_empty)
  have before: "statuses_of k ?db = []"
  proof -
    have "pr_calcjob_pk q \<noteq> k" if "q \<in> set (calcjob_status_table ?db)" for q
    proof
      assume "pr_calcjob_pk q = k"
      with that ok have "Some k \<in> cj_pk ` set (calcjob_table ?db)"
        by (auto simp: status_fk_ok_iff)
      with fresh pk show False by (simp add: k_def)
    qed
    then show ?thesis
      by (simp add: statuses_of_def filter_empty_conv)
  qed
  from refs pk have "filter (\<lambda>p. pr_calcjob_pk p = k) sts = sts"
    by (simp add: k_def filter_id_conv)
  with before db' len have after: "length (statuses_of k db') = 1"
    by (simp add: statuses_of_def)
  from db' have "row \<in> set (calcjob_table db')" by simp
  with pk before after
  show "\<exists>k. cj_pk row = Some k \<and> row \<in> set (calcjob_table db') \<and>
      statuses_of k ?db = [] \<and> length (statuses_of k db') = 1"
    unfolding k_def by blast
next
  assume ok: "delete_calcjob k db = (Inr v, db')"
  note t = delete_calcjob_tables [OF ok]
  from t show "Some k \<notin> set (map cj_pk (calcjob_table db'))"
    by auto
  from t show "statuses_of k db' = []"
    by (simp add: statuses_of_def)
qed

theorem status_created_and_deleted_with_calcjob_witness:
  "add_calcjob ''abc-123'' new_calcjob (Some new_processing) []
       (run [AddClient 0 example_client, AddCode 0 example_code] empty_db)
     = (Inr example_calcjob,
        example_db\<lparr>calcjob_table := [example_calcjob],
          calcjob_status_table := [new_processing\<lparr>pr_pk := Some 1, pr_step := Some Created\<rparr>]\<rparr>) \<and>
   length (statuses_of 1
     (example_db\<lparr>calcjob_table := [example_calcjob],
        calcjob_status_table := [new_processing\<lparr>pr_pk := Some 1, pr_step := Some Created\<rparr>]\<rparr>)) = 1 \<and>
   delete_calcjob 1 example_db_full = (Inr (), example_db_deleted) \<and>
   statuses_of 1 example_db_deleted = []"
proof -
  have add: "add_calcjob ''abc-123'' new_calcjob (Some new_processing) []
       (run [AddClient 0 example_client, AddCode 0 example_code] empty_db)
     = (Inr example_calcjob,
        example_db\<lparr>calcjob_table := [example_calcjob],
          calcjob_status_table := [new_processing\<lparr>pr_pk := Some 1, pr_step := Some Created\<rparr>]\<rparr>)"
    by code_simp
  have del: "delete_calcjob 1 example_db_full = (Inr (), example_db_deleted)"
    by code_simp
  have pk: "cj_pk example_calcjob = Some 1"
    by (simp add: example_calcjob_def)
  from status_created_and_deleted_with_calcjob
    [of "''abc-123''" new_calcjob new_processing "[]"
      "[AddClient 0 example_client, AddCode 0 example_code]" example_calcjob
      "example_db\<lparr>calcjob_table := [example_calcjob],
          calcjob_status_table := [new_processing\<lparr>pr_pk := Some 1, pr_step := Some Created\<rparr>]\<rparr>"
      1 example_db_full "()"]
    add pk
  have "length (statuses_of 1
     (example_db\<lparr>calcjob_table := [example_calcjob],
        calcjob_status_table := [new_processing\<lparr>pr_pk := Some 1, pr_step := Some Created\<rparr>]\<rparr>)) = 1"
    by auto
  moreover from status_created_and_deleted_with_calcjob
    [of "''abc-123''" new_calcjob new_processing "[]"
      "[AddClient 0 example_client, AddCode 0 example_code]" example_calcjob
      example_db_deleted 1 example_db_full "()"] del
  have "statuses_of 1 example_db_deleted = []"
    by simp
  ultimately show ?thesis
    using add del by simp
qed

subsection \<open>References stay resolvable\<close>

lemma refs_ok_iff:
  "refs_ok db \<longleftrightarrow>
     (\<forall>cj \<in> set (calcjob_table db).
        cj_uuid cj \<noteq> None \<and> Some (cj_code_pk cj) \<in> co_pk ` set (code_table db)) \<and>
     (\<forall>co \<in> set (code_table db). Some (co_client_pk co) \<in> cl_pk ` set (client_table db))"
  by (simp add: refs_ok_def list_all_iff)

lemma refs_ok_keys:
  assumes "refs_ok db"
    and "calcjob_table db' = calcjob_table db"
    and "map co_pk (code_table db') = map co_pk (code_table db)"
    and "map co_client_pk (code_table db') = map co_client_pk (code_table db)"
    and "map cl_pk (client_table db') = map cl_pk (client_table db)"
  shows "refs_ok db'"
proof -
  have "list_all (\<lambda>co. Some (co_client_pk co) \<in> set (map cl_pk (client_table db))) (code_table db')
      = list_all (\<lambda>k. Some k \<in> set (map cl_pk (client_table db))) (map co_client_pk (code_table db'))"
    by (simp add: list_all_iff)
  also have "\<dots> = list_all (\<lambda>co. Some (co_client_pk co) \<in> set (map cl_pk (client_table db))) (code_table db)"
    by (simp add: assms(4) list_all_iff)
  finally show ?thesis
    using assms(1) unfolding refs_ok_def assms(2,3,5) by simp
qed

lemma insert_code_fk:
  assumes "insert_code r c db = Inr (row, db')"
  shows "Some (co_client_pk row) \<in> set (map cl_pk (client_table db))"
proof -
  from assms obtain l where l: "default_label r (co_label c) = Inr l"
    by (cases "default_label r (co_label c)") (simp_all add: insert_code_def)
  define row0 where "row0 = c\<lparr>co_pk := Some (assign_pk (co_pk c) (map co_pk (code_table db))),
                        co_label := Some l,
                        co_upload_paths := default [] (co_upload_paths c)\<rparr>"
  from assms l have
    "(if co_pk row0 \<in> set (map co_pk (code_table db))
      then Inl (IntegrityError (PrimaryKey ''code.pk''))
      else if Some (co_client_pk row0) \<notin> set (map cl_pk (client_table db))
      then Inl (IntegrityError (ForeignKey ''code.client_pk''))
      else if (co_client_pk row0, co_label row0)
                \<in> set (map (\<lambda>x. (co_client_pk x, co_label x)) (code_table db))
      then Inl (IntegrityError (Unique ''code.client_pk, code.label''))
      else Inr (row0, db\<lparr>code_table := code_table db @ [row0]\<rparr>)) = Inr (row, db')"
    unfolding insert_code_def row0_def Let_def by simp
  then show ?thesis
    by (auto split: if_splits)
qed

lemma insert_calcjob_row:
  assumes "insert_calcjob u c status outputs db = Inr (row, db')"
  shows "cj_uuid row \<noteq> None \<and> Some (cj_code_pk row) \<in> set (map co_pk (code_table db))"
proof -
  define k where "k = assign_pk (cj_pk c) (map cj_pk (calcjob_table db))"
  define row0 where "row0 = c\<lparr>cj_pk := Some k,
                   cj_label := default [] (cj_label c),
                   cj_uuid := default u (cj_uuid c),
                   cj_parameters := default [] (cj_parameters c),
                   cj_upload := default [] (cj_upload c),
                   cj_download_globs := default [] (cj_download_globs c)\<rparr>"
  define rest where "rest =
     (case (case status of
              None \<Rightarrow> Inr (db\<lparr>calcjob_table := calcjob_table db @ [row0]\<rparr>)
            | Some p \<Rightarrow>
                (case insert_processing (p\<lparr>pr_calcjob_pk := k\<rparr>)
                        (db\<lparr>calcjob_table := calcjob_table db @ [row0]\<rparr>) of
                   Inl e \<Rightarrow> Inl e
                 | Inr (_, db2) \<Rightarrow> Inr db2)) of
        Inl e \<Rightarrow> Inl e
      | Inr db2 \<Rightarrow>
          (case insert_datanodes (map (\<lambda>d. d\<lparr>dn_creator_pk := k\<rparr>) outputs) db2 of
             Inl e \<Rightarrow> Inl e
           | Inr db3 \<Rightarrow> Inr (row0, db3)))"
  from assms have eq:
    "(if cj_pk row0 \<in> set (map cj_pk (calcjob_table db))
      then Inl (IntegrityError (PrimaryKey ''calcjob.pk''))
      else if Some (cj_code_pk row0) \<notin> set (map co_pk (code_table db))
      then Inl (IntegrityError (ForeignKey ''calcjob.code_pk''))
      else rest) = Inr (row, db')"
    unfolding insert_calcjob_def row0_def Let_def rest_def k_def by simp
  then have fk: "Some (cj_code_pk row0) \<in> set (map co_pk (code_table db))"
    and r: "rest = Inr (row, db')"
    by (auto split: if_splits)
  from r have "row = row0"
    unfolding rest_def by (auto split: sum.splits)
  moreover have "cj_uuid row0 \<noteq> None"
    by (simp add: row0_def default_def split: option.splits)
  ultimately show ?thesis
    using fk by simp
qed

lemma add_client_refs_ok:
  assumes "refs_ok db"
  shows "refs_ok (snd (add_client r c db))"
proof (cases "insert_client r c db")
  case (Inl e)
  with assms show ?thesis by (simp add: add_client_def flush_def)
next
  case (Inr res)
  then obtain row db' where res: "insert_client r c db = Inr (row, db')"
    by (cases res) simp
  from insert_client_result [OF res] assms have "refs_ok db'"
    by (auto simp: refs_ok_iff)
  with res show ?thesis by (simp add: add_client_def flush_def)
qed

lemma add_code_refs_ok:
  assumes "refs_ok db"
  shows "refs_ok (snd (add_code r c db))"
proof (cases "insert_code r c db")
  case (Inl e)
  with assms show ?thesis by (simp add: add_code_def flush_def)
next
  case (Inr res)
  then obtain row db' where res: "insert_code r c db = Inr (row, db')"
    by (cases res) simp
  from insert_code_result [OF res] insert_code_fk [OF res] assms have "refs_ok db'"
    by (auto simp: refs_ok_iff)
  with res show ?thesis by (simp add: add_code_def flush_def)
qed

lemma add_processing_refs_ok:
  assumes "refs_ok db"
  shows "refs_ok (snd (add_processing p db))"
proof (cases "insert_processing p db")
  case (Inl e)
  with assms show ?thesis by (simp add: add_processing_def flush_def)
next
  case (Inr res)
  then obtain row db' where res: "insert_processing p db = Inr (row, db')"
    by (cases res) simp
  from insert_processing_result [OF res] assms have "refs_ok db'"
    by (simp add: refs_ok_def)
  with res show ?thesis by (simp add: add_processing_def flush_def)
qed

lemma add_datanode_refs_ok:
  assumes "refs_ok db"
  shows "refs_ok (snd (add_datanode d db))"
proof (cases "insert_datanode d db")
  case (Inl e)
  with assms show ?thesis by (simp add: add_datanode_def flush_def)
next
  case (Inr res)
  then obtain row db' where res: "insert_datanode d db = Inr (row, db')"
    by (cases res) simp
  from insert_datanode_result [OF res] assms have "refs_ok db'"
    by (simp add: refs_ok_def)
  with res show ?thesis by (simp add: add_datanode_def flush_def)
qed

lemma add_calcjob_refs_ok:
  assumes "refs_ok db"
  shows "refs_ok (snd (add_calcjob u c st outs db))"
proof (cases "insert_calcjob u c st outs db")
  case (Inl e)
  with assms show ?thesis by (simp add: add_calcjob_def flush_def)
next
  case (Inr res)
  then obtain row db' where res: "insert_calcjob u c st outs db = Inr (row, db')"
    by (cases res) simp
  from insert_calcjob_tables [OF res] insert_calcjob_row [OF res] assms have "refs_ok db'"
    by (auto simp: refs_ok_iff)
  with res show ?thesis by (simp add: add_calcjob_def flush_def)
qed

lemma delete_calcjob_refs_ok:
  assumes "refs_ok db"
  shows "refs_ok (snd (delete_calcjob k db))"
proof (cases "delete_calcjob k db")
  case (Pair res db')
  show ?thesis
  proof (cases res)
    case (Inl e)
    with Pair delete_calcjob_error have "db' = db" by blast
    with Pair assms show ?thesis by simp
  next
    case (Inr u)
    with Pair have ok: "delete_calcjob k db = (Inr u, db')" by simp
    from delete_calcjob_tables [OF ok] assms have "refs_ok db'"
      by (auto simp: refs_ok_iff)
    with Pair show ?thesis by simp
  qed
qed

lemma set_client_label_refs_ok:
  assumes "refs_ok db"
  shows "refs_ok (snd (set_client_label k l db))"
proof (rule refs_ok_keys [OF assms])
  show "calcjob_table (snd (set_client_label k l db)) = calcjob_table db"
    and "map co_pk (code_table (snd (set_client_label k l db))) = map co_pk (code_table db)"
    and "map co_client_pk (code_table (snd (set_client_label k l db)))
          = map co_client_pk (code_table db)"
    by (simp_all add: set_client_label_def)
  show "map cl_pk (client_table (snd (set_client_label k l db))) = map cl_pk (client_table db)"
    by (simp add: set_client_label_def comp_def key_update_same)
qed

lemma set_code_label_refs_ok:
  assumes "refs_ok db"
  shows "refs_ok (snd (set_code_label k l db))"
proof (rule refs_ok_keys [OF assms])
  have same: "map (\<lambda>c. co_client_pk (if co_pk c = Some k then c\<lparr>co_label := Some l\<rparr> else c)) xs
      = map co_client_pk xs" for xs
    by (induction xs) auto
  show "calcjob_table (snd (set_code_label k l db)) = calcjob_table db"
    and "map cl_pk (client_table (snd (set_code_label k l db))) = map cl_pk (client_table db)"
    by (simp_all add: set_code_label_def split: option.splits)
  show "map co_pk (code_table (snd (set_code_label k l db))) = map co_pk (code_table db)"
    by (simp add: set_code_label_def comp_def key_update_same split: option.splits)
  show "map co_client_pk (code_table (snd (set_code_label k l db)))
          = map co_client_pk (code_table db)"
    by (simp add: set_code_label_def comp_def same split: option.splits)
qed

lemma apply_operation_refs_ok: "refs_ok db \<Longrightarrow> refs_ok (apply_operation op db)"
  by (cases op)
    (simp_all add: add_client_refs_ok add_code_refs_ok add_calcjob_refs_ok
      add_processing_refs_ok add_datanode_refs_ok delete_calcjob_refs_ok
      set_client_label_refs_ok set_code_label_refs_ok)

lemma run_refs_ok: "refs_ok db \<Longrightarrow> refs_ok (run ops db)"
  unfolding run_def
  by (induction ops arbitrary: db) (simp_all add: apply_operation_refs_ok)

lemma refs_ok_empty: "refs_ok empty_db"
  by (simp add: refs_ok_def empty_db_def)

lemma find_key:
  "Some k \<in> key ` set xs \<Longrightarrow> \<exists>x. find (\<lambda>x. key x = Some k) xs = Some x \<and> x \<in> set xs"
proof -
  assume "Some k \<in> key ` set xs"
  then have "find (\<lambda>x. key x = Some k) xs \<noteq> None"
    by (auto simp: find_None_iff)
  then obtain x where x: "find (\<lambda>x. key x = Some k) xs = Some x"
    by auto
  then have "x \<in> set xs"
    by (auto simp: find_Some_iff)
  with x show ?thesis by blast
qed

lemma stored_calcjob_resolves:
  assumes "refs_ok db" and "self \<in> set (calcjob_table db)"
  shows "\<exists>code client u. calcjob_code db self = Some code \<and>
     code_client db code = Some client \<and> cj_uuid self = Some u"
proof -
  from assms have u: "cj_uuid self \<noteq> None"
    and c: "Some (cj_code_pk self) \<in> co_pk ` set (code_table db)"
    by (auto simp: refs_ok_iff)
  from find_key [OF c] obtain code where
    code: "calcjob_code db self = Some code" "code \<in> set (code_table db)"
    unfolding calcjob_code_def by blast
  with assms(1) have "Some (co_client_pk code) \<in> cl_pk ` set (client_table db)"
    by (auto simp: refs_ok_iff)
  from find_key [OF this] obtain client where "code_client db code = Some client"
    unfolding code_client_def by blast
  with code(1) u show ?thesis by auto
qed

subsection \<open>The remote path\<close>

lemma no_sep_hd: "s \<noteq> [] \<Longrightarrow> c \<notin> set s \<Longrightarrow> hd s \<noteq> c"
  by (cases s) auto

lemma posix_splitroot_plain:
  assumes "s \<noteq> []" "slash \<notin> set s"
  shows "posix_splitroot s = ([], [], s)"
  using assms no_sep_hd [of s slash] by (simp add: posix_splitroot_def)

lemma slice_0_1: "s \<noteq> [] \<Longrightarrow> slice 0 1 s = [hd s]"
  by (cases s) (simp_all add: slice_def)

lemma slice_1_2_backslash: "backslash \<notin> set s \<Longrightarrow> slice 1 2 s \<noteq> [backslash]"
proof (cases s)
  case Nil
  then show ?thesis by (simp add: slice_def)
next
  case (Cons a t)
  assume "backslash \<notin> set s"
  with Cons show ?thesis by (cases t) (auto simp: slice_def)
qed

lemma windows_splitroot_plain:
  assumes "s \<noteq> []" "backslash \<notin> set s"
    and "\<not> (slice 1 2 s = [colon] \<and> hd s \<in> drive_letters)"
  shows "windows_splitroot s = ([], [], s)"
proof -
  have second: "slice 1 2 s \<noteq> [backslash]"
    using assms(2) by (rule slice_1_2_backslash)
  have first: "slice 0 1 s = [hd s]" "hd s \<noteq> backslash"
    using assms(1,2) slice_0_1 [of s] no_sep_hd [of s backslash] by simp_all
  from assms(3) first have no_drv:
    "\<not> (slice 1 2 s = [colon] \<and> slice 0 1 s \<noteq> [] \<and> hd (slice 0 1 s) \<in> drive_letters)"
    by simp
  show ?thesis
    unfolding windows_splitroot_def Let_def
    using second first no_drv by auto
qed

lemma parse_parts_plain:
  assumes "plain_segment fl s"
  shows "parse_parts fl s = ([], [], [s])"
proof (cases fl)
  case Posix
  with assms have s: "s \<noteq> []" "s \<noteq> ''.''" "slash \<notin> set s"
    by (simp_all add: plain_segment_def)
  with Posix show ?thesis
    by (simp add: parse_parts_def posix_splitroot_plain)
next
  case Windows
  with assms have s: "s \<noteq> []" "s \<noteq> ''.''" "slash \<notin> set s" "backslash \<notin> set s"
    "\<not> (slice 1 2 s = [colon] \<and> hd s \<in> drive_letters)"
    by (simp_all add: plain_segment_def)
  from s(3) have same: "replace_char slash backslash s = s"
    unfolding replace_char_def by (induction s) auto
  from s Windows show ?thesis
    by (simp add: parse_parts_def same windows_splitroot_plain)
qed

lemma truediv_plain:
  assumes "plain_segment (flavour p) s"
  shows "truediv p s = p\<lparr>parts := parts p @ [s]\<rparr>"
  by (simp add: truediv_def parse_parts_plain [OF assms] join_parsed_parts_def)

lemma plain_workflows: "plain_segment fl ''workflows''"
  by (cases fl) (simp_all add: plain_segment_def slash_def backslash_def slice_def colon_def)

lemma flavour_work_path:
  "flavour (work_path c) = (if cl_fsystem c = Some Posix then Posix else Windows)"
  by (simp add: work_path_def PurePosixPath_def PureWindowsPath_def from_parts_def
      split: prod.splits)

lemma split_on_not_Nil: "split_on c s \<noteq> []"
  by (induction s) (auto split: list.splits)

lemma split_on_no_sep: "c \<notin> set s \<Longrightarrow> split_on c s = [s]"
  by (induction s) auto

lemma split_on_append: "c \<notin> set s \<Longrightarrow> split_on c (s @ c # rest) = s # split_on c rest"
  by (induction s) auto

lemma split_on_join:
  "comps \<noteq> [] \<Longrightarrow> \<forall>x \<in> set comps. c \<notin> set x \<Longrightarrow>
     split_on c (join_sep [c] comps) = comps"
proof (induction comps)
  case Nil
  then show ?case by simp
next
  case (Cons x xs)
  show ?case
  proof (cases xs)
    case Nil
    with Cons.prems show ?thesis by (simp add: split_on_no_sep)
  next
    case (Cons y ys)
    with Cons.IH Cons.prems have "split_on c (join_sep [c] xs) = xs" by simp
    moreover from Cons have "join_sep [c] (x # xs) = x @ c # join_sep [c] xs" by simp
    ultimately show ?thesis
      using Cons.prems by (simp add: split_on_append)
  qed
qed

lemma join_sep_snoc: "xs \<noteq> [] \<Longrightarrow> join_sep s (xs @ [y]) = join_sep s xs @ s @ y"
proof (induction xs)
  case Nil
  then show ?case by simp
next
  case (Cons x xs)
  then show ?case by (cases xs) simp_all
qed

lemma join_sep_hd:
  "comps \<noteq> [] \<Longrightarrow> hd comps \<noteq> [] \<Longrightarrow>
     join_sep s comps \<noteq> [] \<and> hd (join_sep s comps) = hd (hd comps)"
proof (cases comps)
  case Nil
  assume "comps \<noteq> []"
  with Nil show ?thesis by simp
next
  case (Cons x xs)
  assume "hd comps \<noteq> []"
  with Cons show ?thesis by (cases xs) simp_all
qed

text \<open>The names that \<open>parse_parts\<close> reads from the text after the root.\<close>

lemma names_of_join:
  assumes "comps \<noteq> []" and "\<forall>x \<in> set comps. component fl x"
  shows "(if sep fl \<in> set (join_sep [sep fl] comps)
          then filter (\<lambda>x. x \<noteq> [] \<and> x \<noteq> ''.'') (split_on (sep fl) (join_sep [sep fl] comps))
          else if join_sep [sep fl] comps \<noteq> [] \<and> join_sep [sep fl] comps \<noteq> ''.''
               then [join_sep [sep fl] comps] else []) = comps"
proof -
  from assms(2) have nosep: "\<forall>x \<in> set comps. sep fl \<notin> set x"
    by (cases fl) (auto simp: component_def)
  have split: "split_on (sep fl) (join_sep [sep fl] comps) = comps"
    using assms(1) nosep by (rule split_on_join)
  from assms(2) have keep: "filter (\<lambda>x. x \<noteq> [] \<and> x \<noteq> ''.'') comps = comps"
    by (auto simp: component_def filter_id_conv)
  show ?thesis
  proof (cases "sep fl \<in> set (join_sep [sep fl] comps)")
    case True
    then show ?thesis by (simp add: split keep)
  next
    case False
    then have "split_on (sep fl) (join_sep [sep fl] comps) = [join_sep [sep fl] comps]"
      by (rule split_on_no_sep)
    with split have one: "comps = [join_sep [sep fl] comps]" by simp
    then have "join_sep [sep fl] comps \<in> set comps"
      by (metis list.set_intros(1))
    with assms(2) have "join_sep [sep fl] comps \<noteq> []" "join_sep [sep fl] comps \<noteq> ''.''"
      by (auto simp: component_def)
    with False one show ?thesis by simp
  qed
qed

lemma join_sep_starts:
  assumes "comps \<noteq> []" and "\<forall>x \<in> set comps. component fl x"
  shows "join_sep [sep fl] comps \<noteq> [] \<and> hd (join_sep [sep fl] comps) \<noteq> sep fl"
proof -
  from assms have "hd comps \<noteq> []" "sep fl \<notin> set (hd comps)"
    by (cases fl; cases comps; auto simp: component_def)+
  with assms(1) join_sep_hd [of comps "[sep fl]"] show ?thesis
    by (auto simp: no_sep_hd)
qed

lemma lstrip_join:
  assumes "comps \<noteq> []" and "\<forall>x \<in> set comps. component fl x"
  shows "lstrip (sep fl) (sep fl # join_sep [sep fl] comps) = join_sep [sep fl] comps"
proof -
  from assms have "hd comps \<noteq> []" "sep fl \<notin> set (hd comps)"
    by (cases fl; cases comps; auto simp: component_def)+
  with assms(1) join_sep_hd [of comps "[sep fl]"]
  have "join_sep [sep fl] comps \<noteq> []" "hd (join_sep [sep fl] comps) \<noteq> sep fl"
    by (auto simp: no_sep_hd)
  then show ?thesis
    by (cases "join_sep [sep fl] comps") (simp_all add: lstrip_def)
qed

lemma parse_parts_posix_absolute:
  assumes "comps \<noteq> []" and "\<forall>x \<in> set comps. component Posix x"
  shows "parse_parts Posix (slash # join_sep [slash] comps) = ([], [slash], [slash] # comps)"
proof -
  have strip: "lstrip slash (slash # join_sep [slash] comps) = join_sep [slash] comps"
    using lstrip_join [OF assms] by simp
  then have root: "posix_splitroot (slash # join_sep [slash] comps)
      = ([], [slash], join_sep [slash] comps)"
    by (simp add: posix_splitroot_def)
  from names_of_join [OF assms] show ?thesis
    by (simp add: parse_parts_def root split del: if_split cong: if_cong)
qed

lemma drive_letter_plain:
  "d \<in> drive_letters \<Longrightarrow> d \<noteq> slash \<and> d \<noteq> backslash \<and> d \<noteq> colon"
  by (auto simp: drive_letters_def slash_def backslash_def colon_def)

lemma replace_char_append:
  "replace_char a b (xs @ ys) = replace_char a b xs @ replace_char a b ys"
  by (simp add: replace_char_def)

lemma replace_char_absent: "a \<notin> set s \<Longrightarrow> replace_char a b s = s"
  unfolding replace_char_def by (induction s) auto

lemma replace_join:
  assumes "\<forall>x \<in> set comps. component Windows x" and "s = slash \<or> s = backslash"
  shows "replace_char slash backslash (join_sep [s] comps) = join_sep [backslash] comps"
  using assms(1)
proof (induction comps)
  case Nil
  then show ?case by (simp add: replace_char_def)
next
  case (Cons x xs)
  then have x: "replace_char slash backslash x = x"
    by (simp add: component_def replace_char_absent)
  show ?case
  proof (cases xs)
    case Nil
    with x show ?thesis by simp
  next
    case (Cons y ys)
    with Cons.IH Cons.prems
    have "replace_char slash backslash (join_sep [s] xs) = join_sep [backslash] xs"
      by simp
    moreover have "replace_char slash backslash (x @ [s] @ join_sep [s] xs)
        = replace_char slash backslash x @ replace_char slash backslash [s]
            @ replace_char slash backslash (join_sep [s] xs)"
      by (simp only: replace_char_append)
    moreover from assms(2) have "replace_char slash backslash [s] = [backslash]"
      by (auto simp: replace_char_def)
    ultimately show ?thesis
      using Cons x by simp
  qed
qed

lemma windows_splitroot_drive:
  assumes d: "d \<in> drive_letters" and j: "j \<noteq> []" "hd j \<noteq> backslash"
  shows "windows_splitroot (d # colon # backslash # j) = ([d, colon], [backslash], j)"
proof -
  have ne: "colon \<noteq> backslash"
    by (simp add: colon_def backslash_def)
  from j have strip: "lstrip backslash (backslash # j) = j"
    by (cases j) (simp_all add: lstrip_def)
  show ?thesis
    unfolding windows_splitroot_def Let_def
    using d ne strip by (simp add: slice_def)
qed

lemma parse_parts_windows_drive:
  assumes d: "d \<in> drive_letters"
    and comps: "comps \<noteq> []" "\<forall>x \<in> set comps. component Windows x"
    and s: "s = slash \<or> s = backslash"
  shows "parse_parts Windows ([d, colon, s] @ join_sep [s] comps)
     = ([d, colon], [backslash], [d, colon, backslash] # comps)"
proof -
  let ?j = "join_sep [backslash] comps"
  from drive_letter_plain [OF d] s have
    "replace_char slash backslash [d, colon, s] = [d, colon, backslash]"
    by (auto simp: replace_char_def colon_def slash_def)
  with replace_join [OF comps(2) s] have
    repl: "replace_char slash backslash ([d, colon, s] @ join_sep [s] comps)
      = [d, colon, backslash] @ ?j"
    by (simp only: replace_char_append)
  from join_sep_starts [OF comps] have "?j \<noteq> []" "hd ?j \<noteq> backslash"
    by simp_all
  with d have root: "windows_splitroot (d # colon # backslash # ?j)
      = ([d, colon], [backslash], ?j)"
    by (rule windows_splitroot_drive)
  from names_of_join [OF comps] show ?thesis
    unfolding parse_parts_def repl
    by (simp add: root split del: if_split cong: if_cong)
qed

lemma str_path_child:
  assumes anchor: "drv p \<noteq> [] \<or> root p \<noteq> []"
    and parts: "parts p = a # comps" "comps \<noteq> []"
    and u: "plain_segment (flavour p) u"
  shows "str_path (truediv (truediv p ''workflows'') u)
     = drv p @ root p @ join_sep [sep (flavour p)] comps
         @ [sep (flavour p)] @ ''workflows'' @ [sep (flavour p)] @ u"
proof -
  have w: "truediv p ''workflows'' = p\<lparr>parts := parts p @ [''workflows'']\<rparr>"
    by (rule truediv_plain) (rule plain_workflows)
  from u have "plain_segment (flavour (truediv p ''workflows'')) u"
    by (simp add: w)
  then have child: "truediv (truediv p ''workflows'') u
      = p\<lparr>parts := a # (comps @ [''workflows'']) @ [u]\<rparr>"
    by (simp add: truediv_plain w parts)
  have "join_sep [sep (flavour p)] ((comps @ [''workflows'']) @ [u])
      = join_sep [sep (flavour p)] (comps @ [''workflows'']) @ [sep (flavour p)] @ u"
    by (rule join_sep_snoc) simp
  also have "join_sep [sep (flavour p)] (comps @ [''workflows''])
      = join_sep [sep (flavour p)] comps @ [sep (flavour p)] @ ''workflows''"
    using parts(2) by (rule join_sep_snoc)
  finally have "join_sep [sep (flavour p)] ((comps @ [''workflows'']) @ [u])
      = join_sep [sep (flavour p)] comps @ [sep (flavour p)] @ ''workflows''
          @ [sep (flavour p)] @ u"
    by simp
  with anchor show ?thesis
    unfolding child str_path_def format_parsed_parts_def Let_def
    by (auto simp del: append_assoc)
qed

lemma str_remote_posix:
  assumes "cl_fsystem client = Some Posix"
    and "comps \<noteq> []" "\<forall>x \<in> set comps. component Posix x"
    and "cl_work_dir client = slash # join_sep [slash] comps"
    and "plain_segment Posix u"
  shows "str_path (truediv (truediv (work_path client) ''workflows'') u)
     = cl_work_dir client @ [slash] @ ''workflows'' @ [slash] @ u"
proof -
  from assms(1,4) parse_parts_posix_absolute [OF assms(2,3)]
  have wp: "work_path client
      = \<lparr>flavour = Posix, drv = [], root = [slash], parts = [slash] # comps\<rparr>"
    by (simp add: work_path_def PurePosixPath_def from_parts_def)
  from str_path_child [of "work_path client" "[slash]" comps u] assms(2,5) show ?thesis
    by (simp add: wp assms(4))
qed

lemma str_remote_windows:
  assumes "cl_fsystem client = Some Windows"
    and "d \<in> drive_letters"
    and "comps \<noteq> []" "\<forall>x \<in> set comps. component Windows x"
    and "s = slash \<or> s = backslash"
    and "cl_work_dir client = [d, colon, s] @ join_sep [s] comps"
    and "plain_segment Windows u"
  shows "str_path (truediv (truediv (work_path client) ''workflows'') u)
     = [d, colon, backslash] @ join_sep [backslash] comps
         @ [backslash] @ ''workflows'' @ [backslash] @ u"
proof -
  from assms(1,6) parse_parts_windows_drive [OF assms(2,3,4,5)]
  have wp: "work_path client
      = \<lparr>flavour = Windows, drv = [d, colon], root = [backslash],
          parts = [d, colon, backslash] # comps\<rparr>"
    by (simp add: work_path_def PureWindowsPath_def from_parts_def)
  from str_path_child [of "work_path client" "[d, colon, backslash]" comps u] assms(3,7)
  show ?thesis
    by (simp add: wp)
qed

text \<open>
  C2: for a \<open>CalcJob\<close> whose \<open>code\<close> and whose code's \<open>client\<close> are stored and
  whose \<open>uuid\<close> is set, which is so for every \<open>CalcJob\<close> stored in a store reached
  from the empty one, the remote path is the work path of that \<open>Client\<close>
  joined with \<open>workflows\<close> and then with the \<open>uuid\<close>, as a path of the flavour
  that the \<open>fsystem\<close> of the \<open>Client\<close> selects. When the \<open>uuid\<close> is a single
  plain path component (as the text of a \<open>uuid4\<close> is), the path has the drive and
  root of the work path and its components followed by \<open>workflows\<close> and the
  \<open>uuid\<close>. Read as text under the convention of the \<open>Client\<close>: for a posix
  \<open>Client\<close> whose work directory is \<open>/\<close> followed by components separated by
  \<open>/\<close>, the path is the work directory followed by \<open>/workflows/\<close> and the
  \<open>uuid\<close>; for a windows \<open>Client\<close> whose work directory is a drive letter, a
  colon and components separated by \<open>\\<close> or all by \<open>/\<close>, the path is the
  drive letter, the colon and the components, \<open>workflows\<close> and the \<open>uuid\<close>,
  all separated by \<open>\\<close>. For the posix \<open>Client\<close> with work directory
  \<open>/home/u\<close> and the identifier \<open>abc-123\<close> it reads
  \<open>/home/u/workflows/abc-123\<close>; for the windows \<open>Client\<close> with work directory
  \<open>C:\Users\u\<close> it reads \<open>C:\Users\u\workflows\abc-123\<close>, and so it does for
  the work directory \<open>C:/Users/u\<close>; a UNC share \<open>\\srv\share\w\<close> and a
  drive-relative \<open>C:work\<close> keep their drive, and the posix work directory
  \<open>/home/./u/\<close> is normalised.
\<close>

theorem remote_path_join:
  "(calcjob_code db self = Some code \<and> code_client db code = Some client \<and>
    cj_uuid self = Some u \<longrightarrow>
      remote_path db self = Inr (truediv (truediv (work_path client) ''workflows'') u) \<and>
      flavour (truediv (truediv (work_path client) ''workflows'') u)
        = (if cl_fsystem client = Some Posix then Posix else Windows) \<and>
      (plain_segment (flavour (work_path client)) u \<longrightarrow>
         drv (truediv (truediv (work_path client) ''workflows'') u) = drv (work_path client) \<and>
         root (truediv (truediv (work_path client) ''workflows'') u) = root (work_path client) \<and>
         parts (truediv (truediv (work_path client) ''workflows'') u)
           = parts (work_path client) @ [''workflows'', u]) \<and>
      (cl_fsystem client = Some Posix \<and> comps \<noteq> [] \<and>
       (\<forall>x \<in> set comps. component Posix x) \<and>
       cl_work_dir client = slash # join_sep [slash] comps \<and> plain_segment Posix u \<longrightarrow>
         map_sum id str_path (remote_path db self)
           = Inr (cl_work_dir client @ [slash] @ ''workflows'' @ [slash] @ u)) \<and>
      (cl_fsystem client = Some Windows \<and> d \<in> drive_letters \<and> comps \<noteq> [] \<and>
       (\<forall>x \<in> set comps. component Windows x) \<and> (s = slash \<or> s = backslash) \<and>
       cl_work_dir client = [d, colon, s] @ join_sep [s] comps \<and>
       plain_segment Windows u \<longrightarrow>
         map_sum id str_path (remote_path db self)
           = Inr ([d, colon, backslash] @ join_sep [backslash] comps
                  @ [backslash] @ ''workflows'' @ [backslash] @ u))) \<and>
   (job \<in> set (calcjob_table (run ops empty_db)) \<longrightarrow>
      (\<exists>c cl v. calcjob_code (run ops empty_db) job = Some c \<and>
         code_client (run ops empty_db) c = Some cl \<and> cj_uuid job = Some v \<and>
         remote_path (run ops empty_db) job
           = Inr (truediv (truediv (work_path cl) ''workflows'') v))) \<and>
   map_sum id str_path (remote_path example_db example_calcjob)
     = Inr ''/home/u/workflows/abc-123'' \<and>
   map_sum id str_path (remote_path example_windows_db example_calcjob)
     = Inr (''C:'' @ [backslash] @ ''Users'' @ [backslash] @ ''u'' @ [backslash]
            @ ''workflows'' @ [backslash] @ ''abc-123'') \<and>
   map_sum id str_path
       (remote_path
          (example_windows_db\<lparr>client_table :=
             [example_windows_client\<lparr>cl_work_dir := ''C:/Users/u''\<rparr>]\<rparr>)
          example_calcjob)
     = Inr (''C:'' @ [backslash] @ ''Users'' @ [backslash] @ ''u'' @ [backslash]
            @ ''workflows'' @ [backslash] @ ''abc-123'') \<and>
   map_sum id str_path
       (remote_path
          (example_windows_db\<lparr>client_table :=
             [example_windows_client\<lparr>cl_work_dir :=
                [backslash, backslash] @ ''srv'' @ [backslash] @ ''share'' @ [backslash]
                  @ ''w''\<rparr>]\<rparr>)
          example_calcjob)
     = Inr ([backslash, backslash] @ ''srv'' @ [backslash] @ ''share'' @ [backslash] @ ''w''
            @ [backslash] @ ''workflows'' @ [backslash] @ ''abc-123'') \<and>
   map_sum id str_path
       (remote_path
          (example_windows_db\<lparr>client_table :=
             [example_windows_client\<lparr>cl_work_dir := ''C:work''\<rparr>]\<rparr>)
          example_calcjob)
     = Inr (''C:work'' @ [backslash] @ ''workflows'' @ [backslash] @ ''abc-123'') \<and>
   map_sum id str_path
       (remote_path
          (example_db\<lparr>client_table := [example_client\<lparr>cl_work_dir := ''/home/./u/''\<rparr>]\<rparr>)
          example_calcjob)
     = Inr ''/home/u/workflows/abc-123''"
proof (intro conjI impI)
  assume a: "calcjob_code db self = Some code \<and> code_client db code = Some client \<and>
    cj_uuid self = Some u"
  then show rp: "remote_path db self = Inr (truediv (truediv (work_path client) ''workflows'') u)"
    by (simp add: remote_path_def)
  have w: "truediv (work_path client) ''workflows''
      = (work_path client)\<lparr>parts := parts (work_path client) @ [''workflows'']\<rparr>"
    by (rule truediv_plain) (rule plain_workflows)
  show "flavour (truediv (truediv (work_path client) ''workflows'') u)
        = (if cl_fsystem client = Some Posix then Posix else Windows)"
    by (simp add: truediv_def [of _ u] w flavour_work_path split: prod.splits)
  {
    assume "plain_segment (flavour (work_path client)) u"
    then have "plain_segment (flavour (truediv (work_path client) ''workflows'')) u"
      by (simp add: w)
    then have "truediv (truediv (work_path client) ''workflows'') u
        = (work_path client)\<lparr>parts := parts (work_path client) @ [''workflows'', u]\<rparr>"
      by (simp add: truediv_plain w)
    then show "drv (truediv (truediv (work_path client) ''workflows'') u) = drv (work_path client)"
      and "root (truediv (truediv (work_path client) ''workflows'') u) = root (work_path client)"
      and "parts (truediv (truediv (work_path client) ''workflows'') u)
             = parts (work_path client) @ [''workflows'', u]"
      by simp_all
  }
  {
    assume "cl_fsystem client = Some Posix \<and> comps \<noteq> [] \<and>
       (\<forall>x \<in> set comps. component Posix x) \<and>
       cl_work_dir client = slash # join_sep [slash] comps \<and> plain_segment Posix u"
    then have "str_path (truediv (truediv (work_path client) ''workflows'') u)
        = cl_work_dir client @ [slash] @ ''workflows'' @ [slash] @ u"
      by (intro str_remote_posix [of client comps u]) simp_all
    with rp show "map_sum id str_path (remote_path db self)
        = Inr (cl_work_dir client @ [slash] @ ''workflows'' @ [slash] @ u)"
      by simp
  }
  {
    assume "cl_fsystem client = Some Windows \<and> d \<in> drive_letters \<and> comps \<noteq> [] \<and>
       (\<forall>x \<in> set comps. component Windows x) \<and> (s = slash \<or> s = backslash) \<and>
       cl_work_dir client = [d, colon, s] @ join_sep [s] comps \<and>
       plain_segment Windows u"
    then have "str_path (truediv (truediv (work_path client) ''workflows'') u)
        = [d, colon, backslash] @ join_sep [backslash] comps
            @ [backslash] @ ''workflows'' @ [backslash] @ u"
      by (intro str_remote_windows [of client d comps s u]) simp_all
    with rp show "map_sum id str_path (remote_path db self)
        = Inr ([d, colon, backslash] @ join_sep [backslash] comps
               @ [backslash] @ ''workflows'' @ [backslash] @ u)"
      by simp
  }
next
  assume "job \<in> set (calcjob_table (run ops empty_db))"
  with stored_calcjob_resolves [of "run ops empty_db" job]
  obtain c cl v where r: "calcjob_code (run ops empty_db) job = Some c"
    "code_client (run ops empty_db) c = Some cl" "cj_uuid job = Some v"
    by (auto simp: run_refs_ok refs_ok_empty)
  then have "remote_path (run ops empty_db) job
      = Inr (truediv (truediv (work_path cl) ''workflows'') v)"
    by (simp add: remote_path_def)
  with r show "\<exists>c cl v. calcjob_code (run ops empty_db) job = Some c \<and>
         code_client (run ops empty_db) c = Some cl \<and> cj_uuid job = Some v \<and>
         remote_path (run ops empty_db) job
           = Inr (truediv (truediv (work_path cl) ''workflows'') v)"
    by blast
next
  show "map_sum id str_path (remote_path example_db example_calcjob)
     = Inr ''/home/u/workflows/abc-123''"
    by code_simp
next
  show "map_sum id str_path (remote_path example_windows_db example_calcjob)
     = Inr (''C:'' @ [backslash] @ ''Users'' @ [backslash] @ ''u'' @ [backslash]
            @ ''workflows'' @ [backslash] @ ''abc-123'')"
    by code_simp
next
  show "map_sum id str_path
       (remote_path
          (example_windows_db\<lparr>client_table :=
             [example_windows_client\<lparr>cl_work_dir := ''C:/Users/u''\<rparr>]\<rparr>)
          example_calcjob)
     = Inr (''C:'' @ [backslash] @ ''Users'' @ [backslash] @ ''u'' @ [backslash]
            @ ''workflows'' @ [backslash] @ ''abc-123'')"
    by code_simp
next
  show "map_sum id str_path
       (remote_path
          (example_windows_db\<lparr>client_table :=
             [example_windows_client\<lparr>cl_work_dir :=
                [backslash, backslash] @ ''srv'' @ [backslash] @ ''share'' @ [backslash]
                  @ ''w''\<rparr>]\<rparr>)
          example_calcjob)
     = Inr ([backslash, backslash] @ ''srv'' @ [backslash] @ ''share'' @ [backslash] @ ''w''
            @ [backslash] @ ''workflows'' @ [backslash] @ ''abc-123'')"
    by code_simp
next
  show "map_sum id str_path
       (remote_path
          (example_windows_db\<lparr>client_table :=
             [example_windows_client\<lparr>cl_work_dir := ''C:work''\<rparr>]\<rparr>)
          example_calcjob)
     = Inr (''C:work'' @ [backslash] @ ''workflows'' @ [backslash] @ ''abc-123'')"
    by code_simp
next
  show "map_sum id str_path
       (remote_path
          (example_db\<lparr>client_table := [example_client\<lparr>cl_work_dir := ''/home/./u/''\<rparr>]\<rparr>)
          example_calcjob)
     = Inr ''/home/u/workflows/abc-123''"
    by code_simp
qed

theorem remote_path_join_witness:
  "remote_path example_db example_calcjob
     = Inr (truediv (truediv (work_path example_client) ''workflows'') ''abc-123'') \<and>
   parts (truediv (truediv (work_path example_client) ''workflows'') ''abc-123'')
     = parts (work_path example_client) @ [''workflows'', ''abc-123''] \<and>
   map_sum id str_path (remote_path example_db example_calcjob)
     = Inr (cl_work_dir example_client @ [slash] @ ''workflows'' @ [slash] @ ''abc-123'') \<and>
   map_sum id str_path
       (remote_path
          (example_windows_db\<lparr>client_table :=
             [example_windows_client\<lparr>cl_work_dir := ''D:/data/run''\<rparr>]\<rparr>)
          example_calcjob)
     = Inr ([CHR ''D'', colon, backslash] @ join_sep [backslash] [''data'', ''run'']
            @ [backslash] @ ''workflows'' @ [backslash] @ ''abc-123'')"
proof -
  let ?wc = "example_windows_client\<lparr>cl_work_dir := ''D:/data/run''\<rparr>"
  let ?wdb = "example_windows_db\<lparr>client_table := [?wc]\<rparr>"
  let ?wcode = "example_code\<lparr>co_client_pk := 2\<rparr>"
  have rel: "calcjob_code example_db example_calcjob = Some example_code \<and>
      code_client example_db example_code = Some example_client \<and>
      cj_uuid example_calcjob = Some ''abc-123''"
    by code_simp
  have plain: "plain_segment (flavour (work_path example_client)) ''abc-123''"
    by code_simp
  have posix: "cl_fsystem example_client = Some Posix \<and>
      [''home'', ''u''] \<noteq> [] \<and>
      (\<forall>x \<in> set [''home'', ''u'']. component Posix x) \<and>
      cl_work_dir example_client = slash # join_sep [slash] [''home'', ''u''] \<and>
      plain_segment Posix ''abc-123''"
    by code_simp
  have wrel: "calcjob_code ?wdb example_calcjob = Some ?wcode \<and>
      code_client ?wdb ?wcode = Some ?wc \<and>
      cj_uuid example_calcjob = Some ''abc-123''"
    by code_simp
  have win: "cl_fsystem ?wc = Some Windows \<and> CHR ''D'' \<in> drive_letters \<and>
      [''data'', ''run''] \<noteq> [] \<and>
      (\<forall>x \<in> set [''data'', ''run'']. component Windows x) \<and>
      (slash = slash \<or> slash = backslash) \<and>
      cl_work_dir ?wc = [CHR ''D'', colon, slash] @ join_sep [slash] [''data'', ''run''] \<and>
      plain_segment Windows ''abc-123''"
    by code_simp
  from remote_path_join [of example_db example_calcjob example_code example_client
      "''abc-123''" "[''home'', ''u'']"]
    rel plain posix
  have a: "remote_path example_db example_calcjob
     = Inr (truediv (truediv (work_path example_client) ''workflows'') ''abc-123'')"
    "parts (truediv (truediv (work_path example_client) ''workflows'') ''abc-123'')
     = parts (work_path example_client) @ [''workflows'', ''abc-123'']"
    "map_sum id str_path (remote_path example_db example_calcjob)
     = Inr (cl_work_dir example_client @ [slash] @ ''workflows'' @ [slash] @ ''abc-123'')"
    by blast+
  from remote_path_join [of ?wdb example_calcjob ?wcode ?wc
      "''abc-123''" "[''data'', ''run'']" "CHR ''D''" slash]
    wrel win
  have b: "map_sum id str_path (remote_path ?wdb example_calcjob)
     = Inr ([CHR ''D'', colon, backslash] @ join_sep [backslash] [''data'', ''run'']
            @ [backslash] @ ''workflows'' @ [backslash] @ ''abc-123'')"
    by blast
  from a b show ?thesis
    by blast
qed

subsection \<open>Rendering the script\<close>

lemma render_error_only: "(e::render_error) = TemplateRenderError"
  by (cases e) simp

lemma render_pieces_fails:
  "p \<in> set ps \<Longrightarrow> render_piece bs p = Inl e \<Longrightarrow>
     render_pieces bs ps = Inl TemplateRenderError"
proof (induction ps)
  case Nil
  then show ?case by simp
next
  case (Cons q qs)
  show ?case
  proof (cases "render_piece bs q")
    case (Inl e')
    then show ?thesis by (simp add: render_error_only [of e'])
  next
    case (Inr s)
    with Cons have "render_pieces bs qs = Inl TemplateRenderError" by auto
    with Inr show ?thesis by simp
  qed
qed

lemma render_pieces_succeeds:
  "\<forall>p \<in> set ps. \<exists>s. render_piece bs p = Inr s \<Longrightarrow> \<exists>t. render_pieces bs ps = Inr t"
proof (induction ps)
  case Nil
  then show ?case by simp
next
  case (Cons q qs)
  then obtain s t where "render_piece bs q = Inr s" "render_pieces bs qs = Inr t"
    by auto
  then show ?case by simp
qed

lemma render_script_status: "snd (render_script parse bs self status) = status"
  by (simp add: render_script_def split: sum.splits)

lemma invocation_required: "''invocation'' \<in> set required_bindings"
  by (simp add: required_bindings_def)

text \<open>
  C7: rendering needs the three bindings profile, template and invocation: when one
  of them is missing, in particular the invocation, rendering fails with
  \<open>TemplateRenderError\<close>; it fails in the same way when the script refers to a
  field that the named binding does not have. Whatever the outcome, the Execution
  Status is the one before the render, so a failed render does not advance the step.
  With the three bindings present and every field referred to in the script present,
  rendering returns a text.
\<close>

theorem render_missing_binding_fails:
  "(n \<in> set required_bindings \<and> bs n = None
      \<longrightarrow> render_script parse bs self status = (Inl TemplateRenderError, status)) \<and>
   (bs ''invocation'' = None
      \<longrightarrow> render_script parse bs self status = (Inl TemplateRenderError, status)) \<and>
   (Placeholder b f \<in> set (parse (co_script self)) \<and>
    (case bs b of None \<Rightarrow> True | Some obj \<Rightarrow> obj f = None)
      \<longrightarrow> render_script parse bs self status = (Inl TemplateRenderError, status)) \<and>
   pr_step (snd (render_script parse bs self status)) = pr_step status \<and>
   snd (render_script parse bs self status) = status \<and>
   ((\<forall>n \<in> set required_bindings. bs n \<noteq> None) \<and>
    (\<forall>b f. Placeholder b f \<in> set (parse (co_script self))
       \<longrightarrow> (\<exists>obj v. bs b = Some obj \<and> obj f = Some v))
      \<longrightarrow> (\<exists>text. render_script parse bs self status = (Inr text, status)))"
proof (intro conjI impI)
  have missing: "render_script parse bs self status = (Inl TemplateRenderError, status)"
    if "n \<in> set required_bindings" "bs n = None" for n
  proof -
    from that have "list_ex (\<lambda>n. bs n = None) required_bindings"
      by (auto simp: list_ex_iff)
    then show ?thesis by (simp add: render_script_def)
  qed
  {
    assume "n \<in> set required_bindings \<and> bs n = None"
    then show "render_script parse bs self status = (Inl TemplateRenderError, status)"
      using missing by blast
  }
  {
    assume "bs ''invocation'' = None"
    with invocation_required
    show "render_script parse bs self status = (Inl TemplateRenderError, status)"
      by (rule missing)
  }
  {
    assume a: "Placeholder b f \<in> set (parse (co_script self)) \<and>
      (case bs b of None \<Rightarrow> True | Some obj \<Rightarrow> obj f = None)"
    then have "render_piece bs (Placeholder b f) = Inl TemplateRenderError"
      by (auto split: option.splits)
    with a have "render_pieces bs (parse (co_script self)) = Inl TemplateRenderError"
      using render_pieces_fails by blast
    then show "render_script parse bs self status = (Inl TemplateRenderError, status)"
      by (simp add: render_script_def)
  }
  show "pr_step (snd (render_script parse bs self status)) = pr_step status"
    and "snd (render_script parse bs self status) = status"
    by (simp_all add: render_script_status)
  {
    assume a: "(\<forall>n \<in> set required_bindings. bs n \<noteq> None) \<and>
      (\<forall>b f. Placeholder b f \<in> set (parse (co_script self))
         \<longrightarrow> (\<exists>obj v. bs b = Some obj \<and> obj f = Some v))"
    have "\<exists>s. render_piece bs p = Inr s" if "p \<in> set (parse (co_script self))" for p
    proof (cases p)
      case (Literal s)
      then show ?thesis by simp
    next
      case (Placeholder b f)
      with that a obtain obj v where "bs b = Some obj" "obj f = Some v"
        by blast
      with Placeholder show ?thesis by simp
    qed
    then obtain t where "render_pieces bs (parse (co_script self)) = Inr t"
      using render_pieces_succeeds by blast
    moreover from a have "\<not> list_ex (\<lambda>n. bs n = None) required_bindings"
      by (simp add: list_ex_iff)
    ultimately show "\<exists>text. render_script parse bs self status = (Inr text, status)"
      by (simp add: render_script_def)
  }
qed

theorem render_missing_binding_fails_witness:
  "render_script example_pieces (example_bindings(''invocation'' := None)) example_code
       example_submitting
     = (Inl TemplateRenderError, example_submitting) \<and>
   render_script example_pieces
       (example_bindings(''invocation'' \<mapsto> [''label'' \<mapsto> ''first'']))
       example_code example_submitting
     = (Inl TemplateRenderError, example_submitting) \<and>
   render_script example_pieces example_bindings example_code example_submitting
     = (Inr ''runabc-123'', example_submitting) \<and>
   pr_step example_submitting = Some Submitting"
proof -
  have unbound: "(example_bindings(''invocation'' := None)) ''invocation'' = None"
    by simp
  have field: "Placeholder ''invocation'' ''uuid'' \<in> set (example_pieces (co_script example_code))"
    "(case (example_bindings(''invocation'' \<mapsto> [''label'' \<mapsto> ''first''])) ''invocation'' of
        None \<Rightarrow> True | Some obj \<Rightarrow> obj ''uuid'' = None)"
    by (simp_all add: example_pieces_def)
  have good: "render_script example_pieces example_bindings example_code example_submitting
     = (Inr ''runabc-123'', example_submitting)"
    by (simp add: render_script_def required_bindings_def example_bindings_def
        example_pieces_def example_code_def)
  have step: "pr_step example_submitting = Some Submitting"
    by (simp add: example_submitting_def)
  from render_missing_binding_fails
    [of _ "example_bindings(''invocation'' := None)" example_pieces example_code
      example_submitting]
    unbound
  have one: "render_script example_pieces (example_bindings(''invocation'' := None))
      example_code example_submitting = (Inl TemplateRenderError, example_submitting)"
    by blast
  from render_missing_binding_fails
    [of _ "example_bindings(''invocation'' \<mapsto> [''label'' \<mapsto> ''first''])" example_pieces
      example_code example_submitting "''invocation''" "''uuid''"]
    field
  have two: "render_script example_pieces
      (example_bindings(''invocation'' \<mapsto> [''label'' \<mapsto> ''first'']))
      example_code example_submitting = (Inl TemplateRenderError, example_submitting)"
    by blast
  from one two good step show ?thesis by simp
qed

subsection \<open>Equality and hashing of entities\<close>

text \<open>
  C9, as stated, makes two entities equal exactly when their identifiers are equal.
  \<open>__eq__\<close> first asks for the same class: a \<open>Client\<close> and a \<open>Code\<close> that both
  have the primary key 1 are not equal.
\<close>

theorem entity_eq_cross_class_counterexample:
  "pk (AClient example_client) = pk (ACode example_code) \<and>
   \<not> entity_eq (AClient example_client) (Entity (ACode example_code))"
  by (simp add: example_client_def example_code_def)

text \<open>
  C9 (amended): two entities are equal if and only if they are instances of the same
  class and their identifiers are equal; entities of different classes are never
  equal, whatever their identifiers. The hash of an entity is the hash of its
  identifier.
\<close>

theorem entity_eq_hash_by_class_and_pk:
  "(entity_eq a (Entity b) \<longleftrightarrow> class_of a = class_of b \<and> pk a = pk b) \<and>
   entity_hash hash a = hash (pk a)"
  by (auto simp: entity_hash_def)

theorem entity_eq_hash_by_class_and_pk_witness:
  "entity_eq (AClient example_client) (Entity (AClient example_windows_client))
     = (Some (1::int) = Some 2) \<and>
   entity_hash (\<lambda>k. case k of None \<Rightarrow> 0 | Some i \<Rightarrow> i) (AClient example_client) = 1"
  using entity_eq_hash_by_class_and_pk
    [of "AClient example_client" "AClient example_windows_client"
       "\<lambda>k. case k of None \<Rightarrow> 0 | Some i \<Rightarrow> i"]
  by (simp add: example_client_def example_windows_client_def)

subsection \<open>The step of a \<open>Processing\<close>\<close>

text \<open>
  C1, as stated, has every change of the step that reverses the order without a
  recorded failure rejected, the step left as it was. The assignment of \<open>created\<close> to
  a \<open>Processing\<close> that is \<open>finalised\<close> and has no exception recorded is stored.
\<close>

theorem set_step_reverse_counterexample:
  "pr_step example_finalised = Some Finalised \<and>
   pr_exception example_finalised = None \<and>
   step_index Created < step_index Finalised \<and>
   pr_step (set_step Created example_finalised) = Some Created \<and>
   pr_step (set_step Created example_finalised) \<noteq> pr_step example_finalised"
  by (simp add: example_finalised_def set_step_def)

text \<open>
  C1 (amended): the step field holds one of the six values \<open>created\<close>, \<open>uploading\<close>,
  \<open>submitting\<close>, \<open>running\<close>, \<open>retrieving\<close>, \<open>finalised\<close>; an assignment of any of
  them is accepted whatever the current step and whether or not a failure is
  recorded: afterwards the step is the assigned value, and the job identifier and
  the recorded failure are what they were. The data model checks no order of steps.
\<close>

theorem set_step_accepts_any:
  "pr_step (set_step s p) = Some s \<and>
   pr_job_id (set_step s p) = pr_job_id p \<and>
   pr_exception (set_step s p) = pr_exception p \<and>
   pr_calcjob_pk (set_step s p) = pr_calcjob_pk p \<and>
   pr_pk (set_step s p) = pr_pk p"
  by (simp add: set_step_def)

theorem set_step_accepts_any_witness:
  "pr_step (set_step Uploading example_finalised) = Some Uploading \<and>
   pr_job_id (set_step Uploading example_finalised) = Some ''42''"
  using set_step_accepts_any [of Uploading example_finalised]
  by (simp add: example_finalised_def)

subsection \<open>The cached gateway handle\<close>

text \<open>
  C5: on an instance without a cached handle, an access whose construction succeeds
  returns the new handle and caches it; an access to an instance with a cached handle
  returns that handle and constructs nothing (the outside world is untouched); an
  access whose construction fails raises that failure (the kind the spec calls
  \<open>ConnectionError\<close>) and caches nothing, so that the next access constructs again:
  when that construction succeeds, the second access returns its handle. Any number
  of accesses to an instance with a cached handle return that same handle.
\<close>

theorem client_property_cache:
  fixes mk :: "('w, 'e, 'h) firecrest_ctor"
  shows
  "(private_client self = None \<and>
      mk w (cl_client_url self)
        (ClientCredentialsAuth (cl_client_id self) (cl_client_secret self) (cl_token_uri self))
        = (Inr h, w')
    \<longrightarrow> client_property mk self w = (Inr h, self\<lparr>private_client := Some h\<rparr>, w') \<and>
        client_accesses mk n (self\<lparr>private_client := Some h\<rparr>) w'
          = (replicate n (Inr h), self\<lparr>private_client := Some h\<rparr>, w')) \<and>
   (private_client self = Some h
    \<longrightarrow> client_property mk self w = (Inr h, self, w) \<and>
        client_accesses mk n self w = (replicate n (Inr h), self, w)) \<and>
   (private_client self = None \<and>
      mk w (cl_client_url self)
        (ClientCredentialsAuth (cl_client_id self) (cl_client_secret self) (cl_token_uri self))
        = (Inl e, w')
    \<longrightarrow> client_property mk self w = (Inl e, self, w') \<and>
        (mk w' (cl_client_url self)
           (ClientCredentialsAuth (cl_client_id self) (cl_client_secret self) (cl_token_uri self))
           = (Inr h, w'')
         \<longrightarrow> client_accesses mk 2 self w
             = ([Inl e, Inr h], self\<lparr>private_client := Some h\<rparr>, w'')))"
proof (intro conjI impI)
  assume a: "private_client self = None \<and>
      mk w (cl_client_url self)
        (ClientCredentialsAuth (cl_client_id self) (cl_client_secret self) (cl_token_uri self))
        = (Inr h, w')"
  then show "client_property mk self w = (Inr h, self\<lparr>private_client := Some h\<rparr>, w')"
    by (simp add: client_property_def)
  have "private_client (self\<lparr>private_client := Some h\<rparr>) = Some h"
    by simp
  then show "client_accesses mk n (self\<lparr>private_client := Some h\<rparr>) w'
      = (replicate n (Inr h), self\<lparr>private_client := Some h\<rparr>, w')"
    by (rule client_accesses_cached)
next
  assume "private_client self = Some h"
  then show "client_property mk self w = (Inr h, self, w)"
    and "client_accesses mk n self w = (replicate n (Inr h), self, w)"
    by (simp_all add: client_property_cached client_accesses_cached)
next
  assume a: "private_client self = None \<and>
      mk w (cl_client_url self)
        (ClientCredentialsAuth (cl_client_id self) (cl_client_secret self) (cl_token_uri self))
        = (Inl e, w')"
  then show first: "client_property mk self w = (Inl e, self, w')"
    by (simp add: client_property_def)
  assume b: "mk w' (cl_client_url self)
      (ClientCredentialsAuth (cl_client_id self) (cl_client_secret self) (cl_token_uri self))
      = (Inr h, w'')"
  with a have "client_property mk self w' = (Inr h, self\<lparr>private_client := Some h\<rparr>, w'')"
    by (simp add: client_property_def)
  with first show "client_accesses mk 2 self w
      = ([Inl e, Inr h], self\<lparr>private_client := Some h\<rparr>, w'')"
    by (simp add: numeral_2_eq_2)
qed

theorem client_property_cache_witness:
  "client_property flaky_gateway example_instance 0
     = (Inl ''unreachable'', example_instance, 1) \<and>
   client_accesses flaky_gateway 2 example_instance 0
     = ([Inl ''unreachable'',
         Inr (''https://gateway.example'',
              ClientCredentialsAuth ''user'' ''secret'' ''https://auth.example/token'')],
        example_instance\<lparr>private_client :=
          Some (''https://gateway.example'',
                ClientCredentialsAuth ''user'' ''secret'' ''https://auth.example/token'')\<rparr>,
        2) \<and>
   client_accesses flaky_gateway 3
       (example_instance\<lparr>private_client :=
          Some (''https://gateway.example'',
                ClientCredentialsAuth ''user'' ''secret'' ''https://auth.example/token'')\<rparr>)
       2
     = (replicate 3
          (Inr (''https://gateway.example'',
                ClientCredentialsAuth ''user'' ''secret'' ''https://auth.example/token'')),
        example_instance\<lparr>private_client :=
          Some (''https://gateway.example'',
                ClientCredentialsAuth ''user'' ''secret'' ''https://auth.example/token'')\<rparr>,
        2)"
proof -
  let ?h = "(''https://gateway.example'',
             ClientCredentialsAuth ''user'' ''secret'' ''https://auth.example/token'')"
  have unset: "private_client example_instance = None"
    by (simp add: example_instance_def client.defs client_instance.defs)
  have args: "cl_client_url example_instance = ''https://gateway.example''"
    "cl_client_id example_instance = ''user''"
    "cl_client_secret example_instance = ''secret''"
    "cl_token_uri example_instance = ''https://auth.example/token''"
    by (simp_all add: example_instance_def example_client_def client.defs client_instance.defs)
  have first: "flaky_gateway 0 ''https://gateway.example''
      (ClientCredentialsAuth ''user'' ''secret'' ''https://auth.example/token'')
      = (Inl ''unreachable'', 1)"
    and second: "flaky_gateway 1 ''https://gateway.example''
      (ClientCredentialsAuth ''user'' ''secret'' ''https://auth.example/token'')
      = (Inr ?h, 2)"
    by (simp_all add: flaky_gateway_def)
  have cached: "private_client (example_instance\<lparr>private_client := Some ?h\<rparr>) = Some ?h"
    by simp
  from client_property_cache [where self = example_instance and mk = flaky_gateway and w = 0
      and w' = 1 and e = "''unreachable''" and h = ?h and w'' = 2]
    unset args first second
  have a: "client_property flaky_gateway example_instance 0
      = (Inl ''unreachable'', example_instance, 1)"
    "client_accesses flaky_gateway 2 example_instance 0
      = ([Inl ''unreachable'', Inr ?h], example_instance\<lparr>private_client := Some ?h\<rparr>, 2)"
    by simp_all
  from client_property_cache [where self = "example_instance\<lparr>private_client := Some ?h\<rparr>"
      and mk = flaky_gateway and w = 2 and h = ?h and n = 3] cached
  have b: "client_accesses flaky_gateway 3 (example_instance\<lparr>private_client := Some ?h\<rparr>) 2
      = (replicate 3 (Inr ?h), example_instance\<lparr>private_client := Some ?h\<rparr>, 2)"
    by simp
  from a b show ?thesis by simp
qed

subsection \<open>Default labels\<close>

text \<open>
  C8: the pool \<open>NAMES\<close> has 50 entries, and a \<open>Client\<close> that is created with its
  label unset is stored with a label that is a member of the pool.
\<close>

theorem client_default_label_in_pool:
  "length NAMES = 50 \<and>
   (cl_label c = None \<and> add_client r c db = (Inr row, db')
      \<longrightarrow> (\<exists>l \<in> set NAMES. cl_label row = Some l) \<and> row \<in> set (client_table db'))"
proof -
  obtain l where l: "l \<in> set NAMES" "default_label r None = Inr l"
    using default_label_unset by blast
  have "(\<exists>l \<in> set NAMES. cl_label row = Some l) \<and> row \<in> set (client_table db')"
    if "cl_label c = None" "add_client r c db = (Inr row, db')"
    using that l
    by (auto simp: add_client_def flush_Inr insert_client_def Let_def split: if_splits)
  then show ?thesis
    using length_NAMES by blast
qed

theorem client_default_label_in_pool_witness:
  "cl_label new_client = None \<and>
   add_client 7 new_client empty_db =
     (Inr (example_client\<lparr>cl_label := Some ''efficient_explorer''\<rparr>),
      empty_db\<lparr>client_table := [example_client\<lparr>cl_label := Some ''efficient_explorer''\<rparr>]\<rparr>) \<and>
   (\<exists>l \<in> set NAMES.
      cl_label (example_client\<lparr>cl_label := Some ''efficient_explorer''\<rparr>) = Some l)"
proof -
  have unset: "cl_label new_client = None"
    by (simp add: new_client_def)
  have added: "add_client 7 new_client empty_db =
     (Inr (example_client\<lparr>cl_label := Some ''efficient_explorer''\<rparr>),
      empty_db\<lparr>client_table := [example_client\<lparr>cl_label := Some ''efficient_explorer''\<rparr>]\<rparr>)"
    by code_simp
  from client_default_label_in_pool [of new_client 7 empty_db
      "example_client\<lparr>cl_label := Some ''efficient_explorer''\<rparr>"
      "empty_db\<lparr>client_table := [example_client\<lparr>cl_label := Some ''efficient_explorer''\<rparr>]\<rparr>"]
    unset added
  show ?thesis by blast
qed

text \<open>
  C10: a \<open>Code\<close> that is created with its label unset is stored with a label that is
  a member of the same pool \<open>NAMES\<close>, drawn by the same \<open>random.choice\<close> as the
  label of a \<open>Client\<close>, and every member of the pool is the outcome of some draw.
\<close>

theorem code_default_label_in_pool:
  "(co_label c = None \<and> add_code r c db = (Inr row, db')
      \<longrightarrow> (\<exists>l \<in> set NAMES. co_label row = Some l) \<and> row \<in> set (code_table db')) \<and>
   (\<forall>l \<in> set NAMES. \<exists>r. default_label r None = Inr l)"
proof -
  obtain l where l: "l \<in> set NAMES" "default_label r None = Inr l"
    using default_label_unset by blast
  have a: "(\<exists>l \<in> set NAMES. co_label row = Some l) \<and> row \<in> set (code_table db')"
    if "co_label c = None" "add_code r c db = (Inr row, db')"
    using that l
    by (auto simp: add_code_def flush_Inr insert_code_def Let_def split: if_splits)
  have b: "\<exists>r. default_label r None = Inr l" if "l \<in> set NAMES" for l
  proof -
    from that obtain i where i: "i < length NAMES" "NAMES ! i = l"
      by (auto simp: in_set_conv_nth)
    then have "default_label i None = Inr l"
      by (auto simp: default_label_def random_choice_def)
    then show ?thesis ..
  qed
  from a b show ?thesis by blast
qed

theorem code_default_label_in_pool_witness:
  "co_label new_code = None \<and>
   add_code 3 new_code example_db =
     (Inr (example_code\<lparr>co_pk := Some 2, co_label := Some ''radiant_rocket''\<rparr>),
      example_db\<lparr>code_table := [example_code,
        example_code\<lparr>co_pk := Some 2, co_label := Some ''radiant_rocket''\<rparr>]\<rparr>) \<and>
   (\<exists>l \<in> set NAMES.
      co_label (example_code\<lparr>co_pk := Some 2, co_label := Some ''radiant_rocket''\<rparr>) = Some l)"
proof -
  have unset: "co_label new_code = None"
    by (simp add: new_code_def)
  have added: "add_code 3 new_code example_db =
     (Inr (example_code\<lparr>co_pk := Some 2, co_label := Some ''radiant_rocket''\<rparr>),
      example_db\<lparr>code_table := [example_code,
        example_code\<lparr>co_pk := Some 2, co_label := Some ''radiant_rocket''\<rparr>]\<rparr>)"
    by code_simp
  from code_default_label_in_pool [of new_code 3 example_db
      "example_code\<lparr>co_pk := Some 2, co_label := Some ''radiant_rocket''\<rparr>"
      "example_db\<lparr>code_table := [example_code,
        example_code\<lparr>co_pk := Some 2, co_label := Some ''radiant_rocket''\<rparr>]\<rparr>"]
    unset added
  show ?thesis by blast
qed

end
